theory Spec2Isabelle
  imports Main "HOL-Library.List_Lexorder" "HOL-Library.Char_ord"
begin

section \<open>Strings\<close>

text \<open>
  A Go string is a sequence of bytes; \<^typ>\<open>string\<close> is a list of \<^typ>\<open>char\<close>, one per
  byte.  The order on strings (\<open>HOL-Library.List_Lexorder\<close> over \<open>HOL-Library.Char_ord\<close>) is
  the bytewise lexicographic order, which is Go's \<open><\<close> on strings.
\<close>

text \<open>\<open>strings.Join(elems, sep)\<close>.\<close>

fun join :: "string \<Rightarrow> string list \<Rightarrow> string" where
  "join sep [] = []"
| "join sep [x] = x"
| "join sep (x # y # ys) = x @ sep @ join sep (y # ys)"

text \<open>\<open>strings.Split(s, sep)\<close> for a separator of one byte: the empty string gives one
  empty field.\<close>

fun split_on :: "char \<Rightarrow> string \<Rightarrow> string list" where
  "split_on sep [] = [[]]"
| "split_on sep (c # cs) =
     (if c = sep then [] # split_on sep cs
      else (case split_on sep cs of [] \<Rightarrow> [[c]] | w # ws \<Rightarrow> (c # w) # ws))"

text \<open>
  \<open>strings.ToLower\<close>, \<open>strings.TrimSpace\<close> and \<open>strings.EqualFold\<close> on the bytes of
  a UTF-8 string.  The code compares their results with ASCII words only, and the functions
  here decide these comparisons as Go does: besides the ASCII capitals, the lower case of
  U+0130 (bytes C4 B0) is \<open>i\<close> and that of U+212A (bytes E2 84 AA) is \<open>k\<close>; no other code
  point outside ASCII has its lower case in ASCII, and these are left as they are (Go may
  replace them by other bytes outside ASCII).  The spaces that are trimmed are the six ASCII
  ones, U+0085 and U+00A0 (two bytes), and U+1680, U+2000 to U+200A, U+2028, U+2029, U+202F,
  U+205F and U+3000 (three bytes).  Under simple case folding the letters equal to an ASCII
  letter and outside ASCII are U+017F (bytes C5 BF) for \<open>s\<close> and U+212A for \<open>k\<close>.
\<close>

definition lower_char :: "char \<Rightarrow> char" where
  "lower_char c =
     (case map_of (zip ''ABCDEFGHIJKLMNOPQRSTUVWXYZ'' ''abcdefghijklmnopqrstuvwxyz'') c of
        None \<Rightarrow> c
      | Some l \<Rightarrow> l)"

fun to_lower :: "string \<Rightarrow> string" where
  "to_lower (c # d # e # cs) =
     (if c = CHR 0xC4 \<and> d = CHR 0xB0 then CHR ''i'' # to_lower (e # cs)
      else if c = CHR 0xE2 \<and> d = CHR 0x84 \<and> e = CHR 0xAA then CHR ''k'' # to_lower cs
      else lower_char c # to_lower (d # e # cs))"
| "to_lower [c, d] =
     (if c = CHR 0xC4 \<and> d = CHR 0xB0 then ''i'' else [lower_char c, lower_char d])"
| "to_lower cs = map lower_char cs"

declare to_lower.simps [simp del]

definition is_space :: "char \<Rightarrow> bool" where
  "is_space c = (c \<in> set [CHR '' '', CHR 0x09, CHR 0x0A, CHR 0x0B, CHR 0x0C, CHR 0x0D])"

definition is_space2 :: "char \<Rightarrow> char \<Rightarrow> bool" where
  "is_space2 c d = (c = CHR 0xC2 \<and> (d = CHR 0x85 \<or> d = CHR 0xA0))"

definition is_space3 :: "char \<Rightarrow> char \<Rightarrow> char \<Rightarrow> bool" where
  "is_space3 c d e =
     ((c = CHR 0xE1 \<and> d = CHR 0x9A \<and> e = CHR 0x80) \<or>
      (c = CHR 0xE2 \<and> d = CHR 0x80 \<and>
       e \<in> set [CHR 0x80, CHR 0x81, CHR 0x82, CHR 0x83, CHR 0x84, CHR 0x85, CHR 0x86, CHR 0x87,
                CHR 0x88, CHR 0x89, CHR 0x8A, CHR 0xA8, CHR 0xA9, CHR 0xAF]) \<or>
      (c = CHR 0xE2 \<and> d = CHR 0x81 \<and> e = CHR 0x9F) \<or>
      (c = CHR 0xE3 \<and> d = CHR 0x80 \<and> e = CHR 0x80))"

text \<open>Leading spaces are dropped rune by rune; trailing ones likewise, read from the end
  (the argument of \<open>trim_right_rev\<close> is the reversed string).\<close>

fun trim_left :: "string \<Rightarrow> string" where
  "trim_left (c # d # e # cs) =
     (if is_space c then trim_left (d # e # cs)
      else if is_space2 c d then trim_left (e # cs)
      else if is_space3 c d e then trim_left cs
      else c # d # e # cs)"
| "trim_left [c, d] =
     (if is_space c then trim_left [d] else if is_space2 c d then [] else [c, d])"
| "trim_left [c] = (if is_space c then [] else [c])"
| "trim_left [] = []"

fun trim_right_rev :: "string \<Rightarrow> string" where
  "trim_right_rev (e # d # c # cs) =
     (if is_space e then trim_right_rev (d # c # cs)
      else if is_space2 d e then trim_right_rev (c # cs)
      else if is_space3 c d e then trim_right_rev cs
      else e # d # c # cs)"
| "trim_right_rev [e, d] =
     (if is_space e then trim_right_rev [d] else if is_space2 d e then [] else [e, d])"
| "trim_right_rev [e] = (if is_space e then [] else [e])"
| "trim_right_rev [] = []"

definition trim_space :: "string \<Rightarrow> string" where
  "trim_space s = rev (trim_right_rev (rev (trim_left s)))"

fun fold_case :: "string \<Rightarrow> string" where
  "fold_case (c # d # e # cs) =
     (if c = CHR 0xC5 \<and> d = CHR 0xBF then CHR ''s'' # fold_case (e # cs)
      else if c = CHR 0xE2 \<and> d = CHR 0x84 \<and> e = CHR 0xAA then CHR ''k'' # fold_case cs
      else lower_char c # fold_case (d # e # cs))"
| "fold_case [c, d] =
     (if c = CHR 0xC5 \<and> d = CHR 0xBF then ''s'' else [lower_char c, lower_char d])"
| "fold_case cs = map lower_char cs"

definition equal_fold :: "string \<Rightarrow> string \<Rightarrow> bool" where
  "equal_fold s t = (fold_case s = fold_case t)"

text \<open>Decimal digits of a number, as \<open>%v\<close> prints an integer.\<close>

definition digit_char :: "nat \<Rightarrow> char" where
  "digit_char d = ''0123456789'' ! d"

function show_nat :: "nat \<Rightarrow> string" where
  "show_nat n = (if n < 10 then [digit_char n] else show_nat (n div 10) @ [digit_char (n mod 10)])"
  by pat_completeness auto
termination
  by (relation "measure id") auto

declare show_nat.simps [simp del]

definition show_int :: "int \<Rightarrow> string" where
  "show_int i = (if i < 0 then CHR ''-'' # show_nat (nat (- i)) else show_nat (nat i))"

section \<open>The accumulator: image name to source labels\<close>

text \<open>
  \<open>map[string]map[string]bool\<close>.  A Go map is finite and is iterated in an order the
  runtime chooses; every \<open>range\<close> over a map takes the order it produced as an argument
  here (a list of the keys), and the theorems hold for every such order.
\<close>

type_synonym sources = "string \<rightharpoonup> bool"
type_synonym images_set = "string \<rightharpoonup> sources"

text \<open>\<open>imagesSet[image]\<close>: a missing key reads as the nil map, which reads as empty.\<close>

definition sources_of :: "images_set \<Rightarrow> string \<Rightarrow> sources" where
  "sources_of imagesSet img = (case imagesSet img of None \<Rightarrow> Map.empty | Some s \<Rightarrow> s)"

text \<open>The labels whose entry is \<open>true\<close>.\<close>

definition true_sources :: "sources \<Rightarrow> string set" where
  "true_sources s = {source. s source = Some True}"

text \<open>The order a \<open>range\<close> over a map may produce: every key once.\<close>

definition range_order :: "('k \<rightharpoonup> 'v) \<Rightarrow> 'k list \<Rightarrow> bool" where
  "range_order m order = (distinct order \<and> set order = dom m)"

text \<open>\<open>addSourceToImage\<close> (resolve.go): the inner map is created when missing, also when
  no source is given.\<close>

definition addSourceToImage :: "images_set \<Rightarrow> string \<Rightarrow> string list \<Rightarrow> images_set" where
  "addSourceToImage imagesSet img srcs =
     imagesSet(img \<mapsto> fold (\<lambda>source s. s(source \<mapsto> True)) srcs (sources_of imagesSet img))"

text \<open>\<open>getSourcesList\<close> (resolve.go); \<open>order\<close> is the order the \<open>range\<close> over
  \<open>imageSources\<close> produced.\<close>

definition getSourcesList :: "string list \<Rightarrow> sources \<Rightarrow> string" where
  "getSourcesList order imageSources =
     join '','' (sort (filter (\<lambda>source. imageSources source = Some True) order))"

text \<open>\<open>generateImageAndSourceLists\<close> (resolve.go); \<open>order\<close> is the order of the
  \<open>range\<close> over the accumulator and \<open>inner img\<close> the order of the \<open>range\<close> over the
  sources of \<open>img\<close>.  \<open>sort.Slice\<close> with \<open><\<close> and \<open>sort.Strings\<close> sort a list of strings
  ascending; the sorted list of given strings is unique, so \<^const>\<open>sort\<close> computes it.\<close>

definition generateImageAndSourceLists ::
  "string list \<Rightarrow> (string \<Rightarrow> string list) \<Rightarrow> images_set \<Rightarrow> string list \<times> string list" where
  "generateImageAndSourceLists order inner imagesSet =
     (let images = sort order
      in (images,
          map (\<lambda>img. img @ '' '' @ getSourcesList (inner img) (sources_of imagesSet img)) images))"

section \<open>Parsed configuration values\<close>

text \<open>
  What \<open>yaml.Unmarshal\<close> builds in an \<open>interface{}\<close>: a \<open>map[interface{}]interface{}\<close>,
  a \<open>[]interface{}\<close> or a scalar.  The keys of a Go map are hashable, so they are scalars.
  The entries of a mapping are listed in the order the runtime iterates them; a Go map has
  every key once.  Nothing is computed with a floating-point scalar: it fails the type
  assertions to a string and it is printed, so it is kept as the text \<open>%v\<close> prints for it
  (\<open>1.1\<close> for the YAML scalar \<open>1.10\<close>).
\<close>

datatype scalar = SStr string | SInt int | SFloat string | SBool bool | SNil

datatype yaml = YMap "(scalar \<times> yaml) list" | YSeq "yaml list" | YScalar scalar

type_synonym entries = "(scalar \<times> yaml) list"

text \<open>\<open>inputMap[key]\<close> for a string key.\<close>

definition lookup :: "entries \<Rightarrow> string \<Rightarrow> yaml option" where
  "lookup inputMap key = map_of inputMap (SStr key)"

text \<open>\<open>fmt.Sprintf("%v", x)\<close>: a string prints as itself, an integer in decimal, a
  boolean as \<open>true\<close> or \<open>false\<close>, nil as \<open><nil>\<close>, a floating-point number as its
  shortest decimal text.  How a mapping or a sequence prints is
  left to the parameter \<open>composite\<close>.\<close>

fun sprint_v :: "(yaml \<Rightarrow> string) \<Rightarrow> yaml \<Rightarrow> string" where
  "sprint_v composite (YScalar (SStr s)) = s"
| "sprint_v composite (YScalar (SInt i)) = show_int i"
| "sprint_v composite (YScalar (SFloat printed)) = printed"
| "sprint_v composite (YScalar (SBool b)) = (if b then ''true'' else ''false'')"
| "sprint_v composite (YScalar SNil) = ''<nil>''"
| "sprint_v composite v = composite v"

section \<open>Image extraction\<close>

datatype OSType = Linux | Windows

text \<open>\<open>generateImages\<close> (resolve.go), the visitor of the file-walk path.  The tag may be
  any value; the \<open>switch\<close> on \<open>inputMap["os"]\<close> has the one case \<open>"windows"\<close>.\<close>

definition generateImages ::
  "(yaml \<Rightarrow> string) \<Rightarrow> string \<Rightarrow> entries \<Rightarrow> images_set \<Rightarrow> OSType \<Rightarrow> images_set" where
  "generateImages composite chartNameAndVersion inputMap output osType =
     (case lookup inputMap ''repository'' of
        Some (YScalar (SStr repo)) \<Rightarrow>
          (case lookup inputMap ''tag'' of
             None \<Rightarrow> output
           | Some tag \<Rightarrow>
               if lookup inputMap ''os'' = Some (YScalar (SStr ''windows''))
               then (if osType \<noteq> Windows then output
                     else addSourceToImage output (repo @ '':'' @ sprint_v composite tag)
                            [chartNameAndVersion])
               else (if osType \<noteq> Linux then output
                     else addSourceToImage output (repo @ '':'' @ sprint_v composite tag)
                            [chartNameAndVersion]))
      | _ \<Rightarrow> output)"

text \<open>The loop over the comma-separated \<open>os\<close> list in \<open>pickImagesFromValuesMap\<close>
  (charts.go): the first token that names the target adds the image and ends the visit.\<close>

fun os_list_loop :: "OSType \<Rightarrow> images_set \<Rightarrow> string \<Rightarrow> string \<Rightarrow> string list \<Rightarrow> images_set" where
  "os_list_loop osType imagesSet imageName chartNameAndVersion [] = imagesSet"
| "os_list_loop osType imagesSet imageName chartNameAndVersion (os # rest) =
     (if trim_space (to_lower os) = ''windows'' then
        (if osType = Windows then addSourceToImage imagesSet imageName [chartNameAndVersion]
         else os_list_loop osType imagesSet imageName chartNameAndVersion rest)
      else if trim_space (to_lower os) = ''linux'' then
        (if osType = Linux then addSourceToImage imagesSet imageName [chartNameAndVersion]
         else os_list_loop osType imagesSet imageName chartNameAndVersion rest)
      else os_list_loop osType imagesSet imageName chartNameAndVersion rest)"

text \<open>The visitor that \<open>pickImagesFromValuesMap\<close> (charts.go) passes to the walker.  Both
  \<open>repository\<close> and \<open>tag\<close> are asserted to be strings.  When \<open>os\<close> is present and not a
  string the code builds an error value and drops it, so nothing of it remains.\<close>

definition pick_visitor :: "string \<Rightarrow> OSType \<Rightarrow> entries \<Rightarrow> images_set \<Rightarrow> images_set" where
  "pick_visitor chartNameAndVersion osType inputMap imagesSet =
     (case lookup inputMap ''repository'' of
        Some (YScalar (SStr repository)) \<Rightarrow>
          (case lookup inputMap ''tag'' of
             Some (YScalar (SStr tag)) \<Rightarrow>
               (case lookup inputMap ''os'' of
                  Some (YScalar (SStr osList)) \<Rightarrow>
                    os_list_loop osType imagesSet (repository @ '':'' @ tag) chartNameAndVersion
                      (split_on CHR '','' osList)
                | _ \<Rightarrow>
                    if osType = Linux
                    then addSourceToImage imagesSet (repository @ '':'' @ tag) [chartNameAndVersion]
                    else imagesSet)
           | _ \<Rightarrow> imagesSet)
      | _ \<Rightarrow> imagesSet)"

section \<open>Tree walkers\<close>

text \<open>\<open>walkMap\<close> (charts.go).  The visitor mutates state it closes over; here it takes the
  state and returns it.\<close>

fun walkMap :: "yaml \<Rightarrow> (entries \<Rightarrow> 's \<Rightarrow> 's) \<Rightarrow> 's \<Rightarrow> 's" where
  "walkMap (YMap inputMap) walkFunc s =
     fold (\<lambda>v s'. walkMap v walkFunc s') (map snd inputMap) (walkFunc inputMap s)"
| "walkMap (YSeq inputList) walkFunc s = fold (\<lambda>elem s'. walkMap elem walkFunc s') inputList s"
| "walkMap (YScalar x) walkFunc s = s"

text \<open>\<open>walkthroughMap\<close> (resolve.go): only a value that is itself a mapping is walked.\<close>

fun walkthroughMap :: "entries \<Rightarrow> (entries \<Rightarrow> 's \<Rightarrow> 's) \<Rightarrow> 's \<Rightarrow> 's" where
  "walkthroughMap inputMap walkFunc s =
     fold (\<lambda>v s'. case v of YMap m \<Rightarrow> walkthroughMap m walkFunc s' | _ \<Rightarrow> s')
       (map snd inputMap) (walkFunc inputMap s)"

text \<open>\<open>pickImagesFromValuesMap\<close> (charts.go); it returns no error.\<close>

definition pickImagesFromValuesMap ::
  "images_set \<Rightarrow> entries \<Rightarrow> string \<Rightarrow> OSType \<Rightarrow> images_set" where
  "pickImagesFromValuesMap imagesSet values chartNameAndVersion osType =
     walkMap (YMap values) (pick_visitor chartNameAndVersion osType) imagesSet"

text \<open>The walk of \<open>pickImagesFromValuesYAML\<close> (resolve.go) over a parsed \<open>values.yaml\<close>.\<close>

definition pickImagesFromValues ::
  "(yaml \<Rightarrow> string) \<Rightarrow> images_set \<Rightarrow> entries \<Rightarrow> string \<Rightarrow> OSType \<Rightarrow> images_set" where
  "pickImagesFromValues composite imagesSet valuesYaml chartNameAndVersion osType =
     walkthroughMap valuesYaml
       (\<lambda>inputMap output. generateImages composite chartNameAndVersion inputMap output osType)
       imagesSet"

section \<open>Positions in a tree\<close>

text \<open>A position is the list of indices that leads from the root to a node: the index of
  an entry's value in a mapping, of an element in a sequence.\<close>

definition children :: "yaml \<Rightarrow> yaml list" where
  "children t = (case t of YMap es \<Rightarrow> map snd es | YSeq xs \<Rightarrow> xs | YScalar x \<Rightarrow> [])"

fun node_at :: "yaml \<Rightarrow> nat list \<Rightarrow> yaml option" where
  "node_at t [] = Some t"
| "node_at t (i # p) = (if i < length (children t) then node_at (children t ! i) p else None)"

definition entries_at :: "yaml \<Rightarrow> nat list \<Rightarrow> entries" where
  "entries_at t p = (case node_at t p of Some (YMap es) \<Rightarrow> es | _ \<Rightarrow> [])"

text \<open>The positions of the mappings of a tree, in pre-order.\<close>

fun walk_paths :: "yaml \<Rightarrow> nat list list"
  and walk_paths_list :: "nat \<Rightarrow> yaml list \<Rightarrow> nat list list" where
  "walk_paths (YMap es) = [] # walk_paths_list 0 (map snd es)"
| "walk_paths (YSeq xs) = walk_paths_list 0 xs"
| "walk_paths (YScalar x) = []"
| "walk_paths_list i [] = []"
| "walk_paths_list i (v # vs) = map ((#) i) (walk_paths v) @ walk_paths_list (Suc i) vs"

text \<open>A position that is reached through mappings only.\<close>

fun no_seq_above :: "yaml \<Rightarrow> nat list \<Rightarrow> bool" where
  "no_seq_above t [] = True"
| "no_seq_above (YMap es) (i # p) = (i < length es \<and> no_seq_above (snd (es ! i)) p)"
| "no_seq_above t (i # p) = False"

text \<open>The mappings of a tree in pre-order, and those that no sequence lies above.\<close>

fun map_nodes :: "yaml \<Rightarrow> entries list" and map_nodes_list :: "yaml list \<Rightarrow> entries list" where
  "map_nodes (YMap es) = es # map_nodes_list (map snd es)"
| "map_nodes (YSeq xs) = map_nodes_list xs"
| "map_nodes (YScalar x) = []"
| "map_nodes_list [] = []"
| "map_nodes_list (v # vs) = map_nodes v @ map_nodes_list vs"

fun legacy_nodes :: "yaml \<Rightarrow> entries list" and legacy_nodes_list :: "yaml list \<Rightarrow> entries list" where
  "legacy_nodes (YMap es) = es # legacy_nodes_list (map snd es)"
| "legacy_nodes (YSeq xs) = []"
| "legacy_nodes (YScalar x) = []"
| "legacy_nodes_list [] = []"
| "legacy_nodes_list (v # vs) = legacy_nodes v @ legacy_nodes_list vs"

section \<open>Selecting chart versions\<close>

text \<open>An \<open>error\<close> value, \<open>errors.Wrap\<close> around one with its message,
  \<open>errors.Wrapf\<close> around one with its format and arguments, or a run-time panic.\<close>

datatype error =
  Error string | Wrapped error string | Wrappedf error string "string list" | Panic string

text \<open>\<open>libhelm.ChartVersion\<close>: the fields the selection reads.\<close>

record chart_version =
  cv_name :: string
  cv_version :: string
  cv_dir :: string
  cv_local_files :: "string list"

text \<open>The collaborators outside the package: reading a file and parsing its YAML into a
  mapping (\<open>ioutil.ReadFile\<close>, \<open>yaml.Unmarshal\<close>), and the semantic versions of
  \<open>Masterminds/semver\<close>, of some type \<open>'v\<close>.\<close>

record file_system =
  readFile :: "string \<Rightarrow> error + string"
  unmarshal :: "string \<Rightarrow> error + entries"

record 'v semver =
  newVersion :: "string \<Rightarrow> error + 'v"
  greaterThan :: "'v \<Rightarrow> 'v \<Rightarrow> bool"
  equal :: "'v \<Rightarrow> 'v \<Rightarrow> bool"
  lessThan :: "'v \<Rightarrow> 'v \<Rightarrow> bool"

text \<open>\<open>filepath.Base\<close> with the separator \<open>/\<close>.\<close>

definition base :: "string \<Rightarrow> string" where
  "base path =
     (if path = [] then ''.''
      else (let stripped = rev (dropWhile (\<lambda>c. c = CHR ''/'') (rev path))
            in if stripped = [] then ''/''
               else rev (takeWhile (\<lambda>c. c \<noteq> CHR ''/'') (rev stripped))))"

text \<open>\<open>fetchVersionQuestions\<close> (resolve.go): the last questions file among the local
  files decides; without one the result is the nil map.\<close>

fun questions_loop :: "file_system \<Rightarrow> string list \<Rightarrow> entries \<Rightarrow> error + entries" where
  "questions_loop fs [] questions = Inr questions"
| "questions_loop fs (path # rest) questions =
     (if equal_fold (base path) ''questions.yaml'' \<or> equal_fold (base path) ''questions.yml''
      then (case readFile fs path of
              Inl e \<Rightarrow> Inl e
            | Inr data \<Rightarrow>
                (case unmarshal fs data of
                   Inl e \<Rightarrow> Inl e
                 | Inr parsed \<Rightarrow> questions_loop fs rest parsed))
      else questions_loop fs rest questions)"

definition fetchVersionQuestions :: "file_system \<Rightarrow> chart_version \<Rightarrow> error + entries" where
  "fetchVersionQuestions fs version = questions_loop fs (cv_local_files version) []"

text \<open>\<open>questions[key].(string)\<close> with the \<open>ok\<close> dropped: the empty string unless the
  value is a string.\<close>

definition string_field :: "entries \<Rightarrow> string \<Rightarrow> string" where
  "string_field questions key =
     (case lookup questions key of Some (YScalar (SStr s)) \<Rightarrow> s | _ \<Rightarrow> [])"

text \<open>The body of the loop of \<open>getVersionsInRancherMinMaxRange\<close> (resolve.go) for one
  version: an error that ends the function, or whether the version is appended.\<close>

definition version_in_range ::
  "file_system \<Rightarrow> 'v semver \<Rightarrow> string \<Rightarrow> chart_version \<Rightarrow> error + bool" where
  "version_in_range fs lib rancherVersion v =
     (case fetchVersionQuestions fs v of
        Inl e \<Rightarrow> Inl e
      | Inr questions \<Rightarrow>
          (let min = string_field questions ''rancher_min_version'';
               max = string_field questions ''rancher_max_version''
           in if length min > 0 then
                (case newVersion lib (trim_space rancherVersion) of
                   Inl e \<Rightarrow> Inl e
                 | Inr rancherSemVer \<Rightarrow>
                     (case newVersion lib (trim_space min) of
                        Inl e \<Rightarrow> Inl e
                      | Inr minSemVer \<Rightarrow>
                          if length max > 0 then
                            (case newVersion lib (trim_space max) of
                               Inl e \<Rightarrow> Inl e
                             | Inr maxSemVer \<Rightarrow>
                                 Inr ((greaterThan lib rancherSemVer minSemVer \<or>
                                       equal lib rancherSemVer minSemVer) \<and>
                                      (lessThan lib rancherSemVer maxSemVer \<or>
                                       equal lib rancherSemVer maxSemVer)))
                          else Inr (greaterThan lib rancherSemVer minSemVer \<or>
                                    equal lib rancherSemVer minSemVer)))
              else Inr False))"

fun versions_loop ::
  "file_system \<Rightarrow> 'v semver \<Rightarrow> string \<Rightarrow> chart_version list \<Rightarrow> chart_version list \<Rightarrow>
   error + chart_version list" where
  "versions_loop fs lib rancherVersion [] chartVersions = Inr chartVersions"
| "versions_loop fs lib rancherVersion (v # vs) chartVersions =
     (case version_in_range fs lib rancherVersion v of
        Inl e \<Rightarrow> Inl e
      | Inr add \<Rightarrow>
          versions_loop fs lib rancherVersion vs
            (if add then chartVersions @ [v] else chartVersions))"

text \<open>\<open>getVersionsInRancherMinMaxRange\<close> (resolve.go).  \<open>versions[0]\<close> panics on an empty
  list; the caller passes a list with at least one version.\<close>

definition getVersionsInRancherMinMaxRange ::
  "file_system \<Rightarrow> 'v semver \<Rightarrow> string \<Rightarrow> chart_version list \<Rightarrow> error + chart_version list" where
  "getVersionsInRancherMinMaxRange fs lib rancherVersion versions =
     (case versions_loop fs lib rancherVersion versions [] of
        Inl e \<Rightarrow> Inl e
      | Inr chartVersions \<Rightarrow>
          if length chartVersions \<le> 0 then
            (case versions of
               [] \<Rightarrow> Inl (Panic ''runtime error: index out of range [0] with length 0'')
             | latest # _ \<Rightarrow> Inr (chartVersions @ [latest]))
          else Inr chartVersions)"

text \<open>\<open>filterChartVersions\<close> (charts.go).  \<open>filterFunc\<close> is the method of the
  \<open>ResolveCharts\<close> interface; the errors given to \<open>logrus.Info\<close> are collected in a log.
  The error returned is always nil.\<close>

fun filter_loop ::
  "(chart_version \<Rightarrow> error + bool) \<Rightarrow> chart_version list \<Rightarrow> error list \<times> chart_version list \<Rightarrow>
   error list \<times> chart_version list" where
  "filter_loop filterFunc [] (logged, filteredChartVersions) = (logged, filteredChartVersions)"
| "filter_loop filterFunc (version # rest) (logged, filteredChartVersions) =
     (case filterFunc version of
        Inl e \<Rightarrow> filter_loop filterFunc rest (logged @ [e], filteredChartVersions)
      | Inr addToFiltered \<Rightarrow>
          filter_loop filterFunc rest
            (logged, if addToFiltered then filteredChartVersions @ [version]
                     else filteredChartVersions))"

definition filterChartVersions ::
  "(chart_version \<Rightarrow> error + bool) \<Rightarrow> chart_version list \<Rightarrow>
   error list \<times> (error + chart_version list)" where
  "filterChartVersions filterFunc chartVersions =
     (case filter_loop filterFunc chartVersions ([], []) of
        (logged, filteredChartVersions) \<Rightarrow> (logged, Inr filteredChartVersions))"

section \<open>Example collaborators\<close>

text \<open>A file system with the questions files of four chart versions (reading one of them
  fails, one declares a minimum that is no version), and semantic versions as numbers, for
  the concrete instances of the theorems.\<close>

definition demo_fs :: file_system where
  "demo_fs =
     \<lparr>readFile = (\<lambda>path. if path = ''unreadable/questions.yaml''
                           then Inl (Error ''open unreadable/questions.yaml: permission denied'')
                           else Inr path),
      unmarshal = (\<lambda>data.
         if data = ''foo/v1/questions.yaml''
           then Inr [(SStr ''rancher_min_version'', YScalar (SStr ''2.5.0'')),
                     (SStr ''rancher_max_version'', YScalar (SStr ''2.6.0''))]
         else if data = ''foo/v2/questions.yaml''
           then Inr [(SStr ''rancher_min_version'', YScalar (SStr ''2.6.1''))]
         else if data = ''malformed/questions.yaml''
           then Inr [(SStr ''rancher_min_version'', YScalar (SStr ''latest''))]
         else Inr [])\<rparr>"

definition demo_semver :: "nat semver" where
  "demo_semver =
     \<lparr>newVersion = (\<lambda>s. case map_of [(''2.4.0'', 240), (''2.5.0'', 250), (''2.6.0'', 260),
                                         (''2.6.1'', 261), (''2.6.3'', 263)] s of
                             None \<Rightarrow> Inl (Error ''Invalid Semantic Version'')
                           | Some n \<Rightarrow> Inr n),
      greaterThan = (\<lambda>a b. b < a),
      equal = (\<lambda>a b. a = b),
      lessThan = (\<lambda>a b. a < b)\<rparr>"

definition demo_version :: "string \<Rightarrow> string \<Rightarrow> chart_version" where
  "demo_version dir ver =
     \<lparr>cv_name = ''foo'', cv_version = ver, cv_dir = dir,
      cv_local_files = [dir @ ''/Chart.yaml'', dir @ ''/questions.yaml'', dir @ ''/values.yaml'']\<rparr>"

section \<open>Mirror normalization\<close>

text \<open>The body of the loop of \<open>convertMirroredImages\<close> (resolve.go) for an image the
  \<open>range\<close> produced, with \<open>img.Mirror\<close> as the parameter \<open>mirror\<close>; \<open>sourceOrder\<close> is
  the order of the inner \<open>range\<close> over the sources of the image.\<close>

definition convert_image ::
  "(string \<Rightarrow> string) \<Rightarrow> string list \<Rightarrow> string \<Rightarrow> images_set \<Rightarrow> images_set" where
  "convert_image mirror sourceOrder img imagesSet =
     (let convertedImage = mirror img
      in if img = convertedImage then imagesSet
         else (fold (\<lambda>source acc.
                       if sources_of imagesSet img source = Some True
                       then addSourceToImage acc convertedImage [source]
                       else acc)
                 sourceOrder imagesSet)(img := None))"

text \<open>\<open>convertMirroredImages\<close> (resolve.go).  The loop ranges over the map it changes.
  The schedule lists what the \<open>range\<close> produced, in order: each image together with the
  order of the inner \<open>range\<close> over its sources.\<close>

definition convertMirroredImages ::
  "(string \<Rightarrow> string) \<Rightarrow> (string \<times> string list) list \<Rightarrow> images_set \<Rightarrow> images_set" where
  "convertMirroredImages mirror schedule imagesSet =
     fold (\<lambda>(img, sourceOrder) m. convert_image mirror sourceOrder img m) schedule imagesSet"

text \<open>
  What a \<open>range\<close> over a map that changes may produce, after the Go specification: an entry
  that has not been reached and is removed is not produced; an entry created during the
  iteration may be produced or skipped; every other entry is produced once.  The state of
  the iteration holds the keys of the entries that are still to be produced (\<open>pending\<close>),
  the keys of the entries created since the loop began and not produced (\<open>created\<close>), and
  the map.  \<open>range_next\<close> is one iteration: the runtime produces a pending or a created key
  of the map and the body runs; it is \<open>None\<close> when the runtime cannot produce that key.
\<close>

type_synonym range_state = "string set \<times> string set \<times> images_set"

definition range_next ::
  "(string \<Rightarrow> string) \<Rightarrow> range_state \<Rightarrow> string \<times> string list \<Rightarrow> range_state option" where
  "range_next mirror st step =
     (case st of (pending, created, m) \<Rightarrow>
        (case step of (img, sourceOrder) \<Rightarrow>
           if img \<in> pending \<union> created \<and> img \<in> dom m \<and> range_order (sources_of m img) sourceOrder
           then (let m' = convert_image mirror sourceOrder img m
                 in Some ((pending - {img}) \<inter> dom m',
                          ((created - {img}) \<inter> dom m') \<union> (dom m' - dom m),
                          m'))
           else None))"

fun range_run ::
  "(string \<Rightarrow> string) \<Rightarrow> range_state \<Rightarrow> (string \<times> string list) list \<Rightarrow> range_state option" where
  "range_run mirror st [] = Some st"
| "range_run mirror st (step # rest) =
     (case range_next mirror st step of
        None \<Rightarrow> None
      | Some st' \<Rightarrow> range_run mirror st' rest)"

text \<open>The iterations a run of the loop over \<open>imagesSet\<close> can begin with, and the runs that
  the loop can end after: no entry is left that must be produced.\<close>

definition range_prefix ::
  "(string \<Rightarrow> string) \<Rightarrow> images_set \<Rightarrow> (string \<times> string list) list \<Rightarrow> bool" where
  "range_prefix mirror imagesSet schedule =
     (range_run mirror (dom imagesSet, {}, imagesSet) schedule \<noteq> None)"

definition range_complete ::
  "(string \<Rightarrow> string) \<Rightarrow> images_set \<Rightarrow> (string \<times> string list) list \<Rightarrow> bool" where
  "range_complete mirror imagesSet schedule =
     (case range_run mirror (dom imagesSet, {}, imagesSet) schedule of
        None \<Rightarrow> False
      | Some (pending, created, m) \<Rightarrow> pending = {})"

text \<open>A Go map is finite, and so is each of the maps it holds.\<close>

definition finite_images_set :: "images_set \<Rightarrow> bool" where
  "finite_images_set m = (finite (dom m) \<and> (\<forall>img. finite (dom (sources_of m img))))"

text \<open>The accumulator after the images of \<open>D\<close> have been visited, when the rule is
  idempotent: an image of \<open>D\<close> that the rule renames is gone, and its true sources are true
  under its new name.\<close>

definition moved_sources :: "(string \<Rightarrow> string) \<Rightarrow> string set \<Rightarrow> images_set \<Rightarrow> string \<Rightarrow> string set" where
  "moved_sources mirror D m0 k =
     (\<Union>a\<in>{a \<in> D. mirror a = k \<and> a \<noteq> k}. true_sources (sources_of m0 a))"

definition migrated :: "(string \<Rightarrow> string) \<Rightarrow> string set \<Rightarrow> images_set \<Rightarrow> images_set" where
  "migrated mirror D m0 k =
     (if k \<in> D \<and> mirror k \<noteq> k then None
      else if k \<in> dom m0 \<or> moved_sources mirror D m0 k \<noteq> {}
        then Some (\<lambda>x. if x \<in> moved_sources mirror D m0 k then Some True else sources_of m0 k x)
      else None)"

text \<open>Two rewrite rules for the concrete instances: the rule of the specification's scenario,
  which is idempotent, and a rule that is not, since it rewrites what it has rewritten.\<close>

definition demo_mirror :: "string \<Rightarrow> string" where
  "demo_mirror img = (if img = ''docker.io/foo:1.0'' then ''foo:1.0'' else img)"

definition kibana_mirror :: "string \<Rightarrow> string" where
  "kibana_mirror img =
     (if img = ''kibana'' then ''rancher/kibana''
      else if img = ''rancher/kibana'' then ''rancher/rancher/kibana''
      else img)"

section \<open>The orchestrator and its phases\<close>

text \<open>\<open>strings.HasPrefix\<close> and \<open>strings.Contains\<close>.\<close>

definition has_prefix :: "string \<Rightarrow> string \<Rightarrow> bool" where
  "has_prefix s p = (take (length p) s = p)"

fun contains :: "string \<Rightarrow> string \<Rightarrow> bool" where
  "contains [] sub = (sub = [])"
| "contains (c # cs) sub = (has_prefix (c # cs) sub \<or> contains cs sub)"

definition SystemChartsRepoDir :: string where
  "SystemChartsRepoDir = ''build/system-charts''"

text \<open>What \<open>filepath.Walk\<close> hands to its callback, file after file: an error, or a path
  with the name of its \<open>FileInfo\<close>.  What \<open>convert.ToObj\<close> makes of a collection of system
  images: a \<open>map[string]interface{}\<close> whose values are strings, such maps again, or
  anything else.\<close>

datatype walk_entry = WalkError error | WalkFile string string

datatype obj = OString string | OObject "(string \<times> obj) list" | OOther

text \<open>The collections given to \<open>flatImagesFromCollections\<close>: the caller's
  \<open>map[string]RKESystemImages\<close>, or \<open>v32.ToolsSystemImages\<close>.\<close>

datatype 'i collection = RKESystemImages "(string \<times> 'i) list" | ToolsSystemImages

text \<open>The collaborators of the orchestrator outside the package: the file system and the
  YAML parser, the semantic versions, the chart index (\<open>helm.LoadIndex\<close>, its entries in
  the order the runtime iterates them), \<open>filepath.Walk\<close> and \<open>filepath.Rel\<close>,
  \<open>convert.ToObj\<close>, the shell image setting, \<open>img.Mirror\<close>, and how \<open>%v\<close> prints a
  mapping or a sequence.\<close>

record ('v, 'i) world =
  the_files :: file_system
  the_versions :: "'v semver"
  the_loadIndex :: "string \<Rightarrow> error + (string \<times> chart_version list) list"
  the_walk :: "string \<Rightarrow> walk_entry list"
  the_rel :: "string \<Rightarrow> string \<Rightarrow> error + string"
  the_toObj :: "'i collection \<Rightarrow> error + (string \<times> obj) list"
  the_shellImage :: string
  the_mirror :: "string \<Rightarrow> string"
  the_composite :: "yaml \<Rightarrow> string"

text \<open>\<open>getChartVersions\<close> (resolve.go).\<close>

fun chart_versions_loop ::
  "('v, 'i) world \<Rightarrow> string \<Rightarrow> string \<Rightarrow> (string \<times> chart_version list) list \<Rightarrow>
   chart_version list \<Rightarrow> error + chart_version list" where
  "chart_versions_loop w path rancherVersion [] chartVersions = Inr chartVersions"
| "chart_versions_loop w path rancherVersion ((name, vs) # rest) chartVersions =
     (case vs of
        [] \<Rightarrow> chart_versions_loop w path rancherVersion rest chartVersions
      | latestVersion # _ \<Rightarrow>
          if contains path SystemChartsRepoDir
          then (case getVersionsInRancherMinMaxRange (the_files w) (the_versions w) rancherVersion vs of
                  Inl e \<Rightarrow> Inl e
                | Inr versionsInRange \<Rightarrow>
                    chart_versions_loop w path rancherVersion rest (chartVersions @ versionsInRange))
          else chart_versions_loop w path rancherVersion rest (chartVersions @ [latestVersion]))"

definition getChartVersions ::
  "('v, 'i) world \<Rightarrow> string \<Rightarrow> string \<Rightarrow> error + chart_version list" where
  "getChartVersions w path rancherVersion =
     (case the_loadIndex w path of
        Inl e \<Rightarrow> Inl e
      | Inr entries \<Rightarrow> chart_versions_loop w path rancherVersion entries [])"

text \<open>\<open>pickImagesFromValuesYAML\<close> (resolve.go).  The chart is the first whose directory
  is a prefix of the relative path; its label \<open>name:version\<close> is never empty.\<close>

definition pickImagesFromValuesYAML ::
  "('v, 'i) world \<Rightarrow> images_set \<Rightarrow> chart_version list \<Rightarrow> string \<Rightarrow> string \<Rightarrow> string \<Rightarrow>
   OSType \<Rightarrow> error + images_set" where
  "pickImagesFromValuesYAML w imagesSet chartVersions basePath path infoName osType =
     (if infoName \<noteq> ''values.yaml'' then Inr imagesSet
      else (case the_rel w basePath path of
              Inl e \<Rightarrow> Inl e
            | Inr relPath \<Rightarrow>
                (case find (\<lambda>v. has_prefix relPath (cv_dir v)) chartVersions of
                   None \<Rightarrow> Inr imagesSet
                 | Some v \<Rightarrow>
                     (case readFile (the_files w) path of
                        Inl e \<Rightarrow> Inl e
                      | Inr data \<Rightarrow>
                          (case unmarshal (the_files w) data of
                             Inl e \<Rightarrow> Inl e
                           | Inr valuesYaml \<Rightarrow>
                               Inr (pickImagesFromValues (the_composite w) imagesSet valuesYaml
                                      (cv_name v @ '':'' @ cv_version v) osType))))))"

text \<open>The callback of \<open>filepath.Walk\<close> in \<open>fetchImagesFromCharts\<close>, file after file; the
  first error ends the walk.\<close>

fun walk_loop ::
  "('v, 'i) world \<Rightarrow> chart_version list \<Rightarrow> string \<Rightarrow> OSType \<Rightarrow> walk_entry list \<Rightarrow>
   images_set \<Rightarrow> error + images_set" where
  "walk_loop w chartVersions path osType [] imagesSet = Inr imagesSet"
| "walk_loop w chartVersions path osType (WalkError e # rest) imagesSet = Inl e"
| "walk_loop w chartVersions path osType (WalkFile p infoName # rest) imagesSet =
     (case pickImagesFromValuesYAML w imagesSet chartVersions path p infoName osType of
        Inl e \<Rightarrow> Inl e
      | Inr imagesSet' \<Rightarrow> walk_loop w chartVersions path osType rest imagesSet')"

text \<open>\<open>fetchImagesFromCharts\<close> (resolve.go).\<close>

definition fetchImagesFromCharts ::
  "('v, 'i) world \<Rightarrow> string \<Rightarrow> string \<Rightarrow> OSType \<Rightarrow> images_set \<Rightarrow> error + images_set" where
  "fetchImagesFromCharts w path rancherVersion osType imagesSet =
     (case getChartVersions w path rancherVersion of
        Inl e \<Rightarrow> Inl (Wrappedf e ''failed to get chart and version from %q'' [path])
      | Inr chartVersions \<Rightarrow>
          (case walk_loop w chartVersions path osType (the_walk w path) imagesSet of
             Inl e \<Rightarrow> Inl (Wrapped e ''failed to pick images from values.yaml'')
           | Inr imagesSet' \<Rightarrow> Inr imagesSet'))"

text \<open>\<open>fetchImagesFromCollection\<close>, \<open>flatImagesFromCollections\<close> and
  \<open>fetchImagesFromSystem\<close> (resolve.go).\<close>

fun fetchImagesFromCollection :: "(string \<times> obj) list \<Rightarrow> string list"
  and images_of_value :: "obj \<Rightarrow> string list" where
  "fetchImagesFromCollection [] = []"
| "fetchImagesFromCollection ((k, v) # rest) = images_of_value v @ fetchImagesFromCollection rest"
| "images_of_value (OString t) = [t]"
| "images_of_value (OObject m) = fetchImagesFromCollection m"
| "images_of_value OOther = []"

fun flatImagesFromCollections ::
  "('v, 'i) world \<Rightarrow> 'i collection list \<Rightarrow> string list \<Rightarrow> error + string list" where
  "flatImagesFromCollections w [] images = Inr images"
| "flatImagesFromCollections w (col # cols) images =
     (case the_toObj w col of
        Inl e \<Rightarrow> Inl e
      | Inr colObj \<Rightarrow> flatImagesFromCollections w cols (images @ fetchImagesFromCollection colObj))"

definition fetchImagesFromSystem ::
  "('v, 'i) world \<Rightarrow> (string \<times> 'i) list \<Rightarrow> OSType \<Rightarrow> images_set \<Rightarrow> error + images_set" where
  "fetchImagesFromSystem w rkeSystemImages osType imagesSet =
     (case flatImagesFromCollections w
             (RKESystemImages rkeSystemImages #
              (case osType of Linux \<Rightarrow> [ToolsSystemImages] | Windows \<Rightarrow> [])) [] of
        Inl e \<Rightarrow> Inl e
      | Inr images \<Rightarrow> Inr (fold (\<lambda>img m. addSourceToImage m img [''system'']) images imagesSet))"

text \<open>\<open>setRequirementImages\<close> and \<open>setImages\<close> (resolve.go).\<close>

definition setRequirementImages :: "('v, 'i) world \<Rightarrow> OSType \<Rightarrow> images_set \<Rightarrow> images_set" where
  "setRequirementImages w osType imagesSet =
     (case osType of
        Linux \<Rightarrow> addSourceToImage (addSourceToImage imagesSet (the_shellImage w) [''core''])
                   ''busybox'' [''core'']
      | Windows \<Rightarrow> imagesSet)"

definition setImages :: "string \<Rightarrow> string list \<Rightarrow> images_set \<Rightarrow> images_set" where
  "setImages source imagesFromArgs imagesSet =
     fold (\<lambda>img m. addSourceToImage m img [source]) imagesFromArgs imagesSet"

text \<open>The orders in which the runtime iterates the accumulator in one call of \<open>GetImages\<close>:
  the run of the loop of \<open>convertMirroredImages\<close>, and the orders of the loops of
  \<open>generateImageAndSourceLists\<close> and \<open>getSourcesList\<close>.\<close>

record iteration =
  mirror_schedule :: "(string \<times> string list) list"
  image_order :: "string list"
  source_order :: "string \<Rightarrow> string list"

text \<open>\<open>GetImages\<close> (resolve.go): the two lists, or the error of the first phase that
  fails, wrapped.\<close>

definition GetImages ::
  "('v, 'i) world \<Rightarrow> iteration \<Rightarrow> string \<Rightarrow> string \<Rightarrow> string \<Rightarrow> string list \<Rightarrow> string list \<Rightarrow>
   (string \<times> 'i) list \<Rightarrow> OSType \<Rightarrow> error + (string list \<times> string list)" where
  "GetImages w it systemChartPath chartPath rancherVersion k3sUpgradeImages imagesFromArgs
     rkeSystemImages osType =
     (case (if systemChartPath \<noteq> []
            then fetchImagesFromCharts w systemChartPath rancherVersion osType Map.empty
            else Inr Map.empty) of
        Inl e \<Rightarrow> Inl (Wrapped e ''failed to fetch images from system charts'')
      | Inr set1 \<Rightarrow>
          (case (if chartPath \<noteq> []
                 then fetchImagesFromCharts w chartPath rancherVersion osType set1
                 else Inr set1) of
             Inl e \<Rightarrow> Inl (Wrapped e ''failed to fetch images from charts'')
           | Inr set2 \<Rightarrow>
               (case (if length rkeSystemImages > 0
                      then fetchImagesFromSystem w rkeSystemImages osType set2
                      else Inr set2) of
                  Inl e \<Rightarrow> Inl (Wrapped e ''failed to fetch images from system images'')
                | Inr set3 \<Rightarrow>
                    Inr (generateImageAndSourceLists (image_order it) (source_order it)
                           (convertMirroredImages (the_mirror w) (mirror_schedule it)
                              (setImages ''k3sUpgrade'' k3sUpgradeImages
                                 (setImages ''rancher'' imagesFromArgs
                                    (setRequirementImages w osType set3))))))))"

text \<open>A world for the concrete instances: the example file system and versions, one chart
  \<open>foo\<close> with two versions in the index, no system images, the rule of the scenario.\<close>

definition demo_world :: "(nat, unit) world" where
  "demo_world =
     \<lparr>the_files = demo_fs,
      the_versions = demo_semver,
      the_loadIndex = (\<lambda>path. Inr [(''foo'', [demo_version ''foo/v2'' ''2.0.0'',
                                                demo_version ''foo/v1'' ''1.0.0''])]),
      the_walk = (\<lambda>path. []),
      the_rel = (\<lambda>basePath path. Inr (drop (Suc (length basePath)) path)),
      the_toObj = (\<lambda>col. Inr []),
      the_shellImage = ''rancher/shell:v0.1.6'',
      the_mirror = demo_mirror,
      the_composite = (\<lambda>v. [])\<rparr>"

text \<open>The accumulator that \<open>GetImages\<close> has built when it calls
  \<open>convertMirroredImages\<close>, or the error it returns before.\<close>

definition collectImages ::
  "('v, 'i) world \<Rightarrow> string \<Rightarrow> string \<Rightarrow> string \<Rightarrow> string list \<Rightarrow> string list \<Rightarrow>
   (string \<times> 'i) list \<Rightarrow> OSType \<Rightarrow> error + images_set" where
  "collectImages w systemChartPath chartPath rancherVersion k3sUpgradeImages imagesFromArgs
     rkeSystemImages osType =
     (case (if systemChartPath \<noteq> []
            then fetchImagesFromCharts w systemChartPath rancherVersion osType Map.empty
            else Inr Map.empty) of
        Inl e \<Rightarrow> Inl (Wrapped e ''failed to fetch images from system charts'')
      | Inr set1 \<Rightarrow>
          (case (if chartPath \<noteq> []
                 then fetchImagesFromCharts w chartPath rancherVersion osType set1
                 else Inr set1) of
             Inl e \<Rightarrow> Inl (Wrapped e ''failed to fetch images from charts'')
           | Inr set2 \<Rightarrow>
               (case (if length rkeSystemImages > 0
                      then fetchImagesFromSystem w rkeSystemImages osType set2
                      else Inr set2) of
                  Inl e \<Rightarrow> Inl (Wrapped e ''failed to fetch images from system images'')
                | Inr set3 \<Rightarrow>
                    Inr (setImages ''k3sUpgrade'' k3sUpgradeImages
                           (setImages ''rancher'' imagesFromArgs
                              (setRequirementImages w osType set3))))))"

text \<open>The iterations the runtime can make in a call of \<open>GetImages\<close> that has built the
  accumulator \<open>acc\<close>: the schedule is a run of the loop of \<open>convertMirroredImages\<close> to its
  end, and the orders of the list materialization list the keys of the maps they range
  over.\<close>

definition admissible :: "(string \<Rightarrow> string) \<Rightarrow> images_set \<Rightarrow> iteration \<Rightarrow> bool" where
  "admissible rule acc it =
     (range_complete rule acc (mirror_schedule it) \<and>
      range_order (convertMirroredImages rule (mirror_schedule it) acc) (image_order it) \<and>
      (\<forall>img\<in>dom (convertMirroredImages rule (mirror_schedule it) acc).
         range_order (sources_of (convertMirroredImages rule (mirror_schedule it) acc) img)
           (source_order it img)))"


text \<open>A rule that is not idempotent, after the replacement of \<open>kibana\<close> by
  \<open>rancher/kibana\<close> in an image name: it puts \<open>rancher/\<close> before every name.  \<open>grow_run n\<close>
  are the first \<open>n\<close> iterations of a run of the loop over the one image \<open>kibana\<close> in which
  the runtime produces every entry the loop creates.\<close>

definition grow_mirror :: "string \<Rightarrow> string" where
  "grow_mirror img = ''rancher/'' @ img"

fun grown :: "nat \<Rightarrow> string" where
  "grown 0 = ''kibana''"
| "grown (Suc n) = grow_mirror (grown n)"

fun grow_run :: "nat \<Rightarrow> (string \<times> string list) list" where
  "grow_run 0 = []"
| "grow_run (Suc n) = grow_run n @ [(grown n, [''rancher''])]"



text \<open>A world whose chart index has two charts, the directory of one a prefix of the
  directory of the other, and one values file below both.\<close>

definition overlap_chart :: "string \<Rightarrow> string \<Rightarrow> chart_version" where
  "overlap_chart name dir =
     \<lparr>cv_name = name, cv_version = ''1.0.0'', cv_dir = dir, cv_local_files = []\<rparr>"

definition overlap_world :: "(string \<times> chart_version list) list \<Rightarrow> (nat, unit) world" where
  "overlap_world entries =
     demo_world
       \<lparr>the_files :=
          \<lparr>readFile = (\<lambda>path. Inr path),
           unmarshal = (\<lambda>data. Inr [(SStr ''repository'', YScalar (SStr ''rancher/foo'')),
                                    (SStr ''tag'', YScalar (SStr ''1.0'')),
                                    (SStr ''os'', YScalar (SStr ''windows''))])\<rparr>,
        the_loadIndex := (\<lambda>path. Inr entries),
        the_walk := (\<lambda>path. [WalkFile (path @ ''/foo/sub/values.yaml'') ''values.yaml''])\<rparr>"

section \<open>Properties of the accumulator\<close>

lemma sort_distinct_eq: "distinct xs \<Longrightarrow> sort xs = sorted_list_of_set (set xs)"
  by (simp add: sorted_list_of_set_sort_remdups distinct_remdups_id)

lemma sources_of_empty: "sources_of Map.empty i = Map.empty"
  by (simp add: sources_of_def)

lemma fold_add_apply:
  "fold (\<lambda>source s. s(source \<mapsto> True)) srcs s0 x = (if x \<in> set srcs then Some True else s0 x)"
  by (induction srcs arbitrary: s0) auto

lemma sources_of_add:
  "sources_of (addSourceToImage m i srcs) j =
     (if j = i then (\<lambda>x. if x \<in> set srcs then Some True else sources_of m i x) else sources_of m j)"
  by (auto simp: addSourceToImage_def sources_of_def fold_add_apply fun_eq_iff)


lemma dom_sources_add:
  "dom (sources_of (addSourceToImage m i srcs) j) =
     (if j = i then dom (sources_of m i) \<union> set srcs else dom (sources_of m j))"
  by (auto simp: sources_of_add dom_def)

lemma getSourcesList_canonical:
  assumes "range_order s order"
  shows "getSourcesList order s = join '','' (sorted_list_of_set (true_sources s))"
proof -
  have d: "distinct (filter (\<lambda>source. s source = Some True) order)"
    using assms by (simp add: range_order_def)
  have "set (filter (\<lambda>source. s source = Some True) order) = true_sources s"
    using assms by (auto simp: range_order_def true_sources_def)
  with sort_distinct_eq [OF d] show ?thesis
    by (simp add: getSourcesList_def)
qed




lemma generate_canonical:
  assumes "range_order m order" and "\<forall>img\<in>dom m. range_order (sources_of m img) (inner img)"
  shows "generateImageAndSourceLists order inner m =
           (sorted_list_of_set (dom m),
            map (\<lambda>img. img @ '' '' @ join '','' (sorted_list_of_set (true_sources (sources_of m img))))
              (sorted_list_of_set (dom m)))"
proof -
  have s: "sort order = sorted_list_of_set (dom m)"
    using assms(1) by (simp add: range_order_def sort_distinct_eq)
  have f: "finite (dom m)"
    using assms(1) by (auto simp: range_order_def intro: finite_subset [OF _ finite_set])
  have "\<forall>img\<in>set (sorted_list_of_set (dom m)).
          getSourcesList (inner img) (sources_of m img) =
          join '','' (sorted_list_of_set (true_sources (sources_of m img)))"
    using assms(2) f by (simp add: getSourcesList_canonical)
  then show ?thesis
    by (simp add: generateImageAndSourceLists_def s Let_def)
qed

text \<open>
  The list materialization.  The two output lists depend on the accumulator only, not on
  the order in which the runtime iterates the accumulator or the sources of an image: any two
  iteration orders give the same lists.  The image list is strictly ascending (sorted, every
  image once) and holds exactly the images of the accumulator; the second list holds, for each
  image in that order, the image, a space, and its labels sorted ascending and joined by commas.
\<close>

theorem output_determinism:
  assumes "range_order m order1" and "range_order m order2"
    and "\<forall>img\<in>dom m. range_order (sources_of m img) (inner1 img) \<and>
                       range_order (sources_of m img) (inner2 img)"
  shows "generateImageAndSourceLists order1 inner1 m = generateImageAndSourceLists order2 inner2 m \<and>
         sorted_wrt (<) (fst (generateImageAndSourceLists order1 inner1 m)) \<and>
         set (fst (generateImageAndSourceLists order1 inner1 m)) = dom m \<and>
         snd (generateImageAndSourceLists order1 inner1 m) =
           map (\<lambda>img. img @ '' '' @ join '','' (sorted_list_of_set (true_sources (sources_of m img))))
             (fst (generateImageAndSourceLists order1 inner1 m))"
proof -
  have f: "finite (dom m)"
    using assms(1) by (auto simp: range_order_def intro: finite_subset [OF _ finite_set])
  show ?thesis
    using assms f by (simp add: generate_canonical)
qed

theorem output_determinism_witness:
  "generateImageAndSourceLists [''rancher/shell:v1'', ''busybox''] (\<lambda>img. [''rancher'', ''core''])
     (addSourceToImage (addSourceToImage (addSourceToImage (addSourceToImage Map.empty
        ''busybox'' [''core'']) ''rancher/shell:v1'' [''rancher'']) ''rancher/shell:v1'' [''core''])
        ''busybox'' [''rancher'']) =
   generateImageAndSourceLists [''busybox'', ''rancher/shell:v1''] (\<lambda>img. [''core'', ''rancher''])
     (addSourceToImage (addSourceToImage (addSourceToImage (addSourceToImage Map.empty
        ''busybox'' [''core'']) ''rancher/shell:v1'' [''rancher'']) ''rancher/shell:v1'' [''core''])
        ''busybox'' [''rancher'']) \<and>
   generateImageAndSourceLists [''rancher/shell:v1'', ''busybox''] (\<lambda>img. [''rancher'', ''core''])
     (addSourceToImage (addSourceToImage (addSourceToImage (addSourceToImage Map.empty
        ''busybox'' [''core'']) ''rancher/shell:v1'' [''rancher'']) ''rancher/shell:v1'' [''core''])
        ''busybox'' [''rancher'']) =
   ([''busybox'', ''rancher/shell:v1''], [''busybox core,rancher'', ''rancher/shell:v1 core,rancher''])"
proof -
  let ?m = "addSourceToImage (addSourceToImage (addSourceToImage (addSourceToImage Map.empty
        ''busybox'' [''core'']) ''rancher/shell:v1'' [''rancher'']) ''rancher/shell:v1'' [''core''])
        ''busybox'' [''rancher'']"
  have d: "dom ?m = {''busybox'', ''rancher/shell:v1''}"
    by (auto simp: addSourceToImage_def)
  have o1: "range_order ?m [''rancher/shell:v1'', ''busybox'']"
    and o2: "range_order ?m [''busybox'', ''rancher/shell:v1'']"
    unfolding range_order_def d by auto
  have i: "\<forall>img\<in>dom ?m. range_order (sources_of ?m img) [''rancher'', ''core''] \<and>
                         range_order (sources_of ?m img) [''core'', ''rancher'']"
    unfolding d by (auto simp: range_order_def dom_sources_add sources_of_empty)
  have e: "generateImageAndSourceLists [''rancher/shell:v1'', ''busybox''] (\<lambda>img. [''rancher'', ''core'']) ?m =
      ([''busybox'', ''rancher/shell:v1''], [''busybox core,rancher'', ''rancher/shell:v1 core,rancher''])"
    by (simp add: generateImageAndSourceLists_def getSourcesList_def sources_of_add sources_of_empty)
  from conjunct1 [OF output_determinism [OF o1 o2 i]] e show ?thesis by (rule conjI)
qed

section \<open>Properties of image extraction\<close>

lemma to_lower_windows: "trim_space (to_lower ''windows'') = ''windows''"
  by (simp add: trim_space_def to_lower.simps lower_char_def is_space_def is_space2_def
      is_space3_def)

lemma to_lower_linux: "trim_space (to_lower ''linux'') = ''linux''"
  by (simp add: trim_space_def to_lower.simps lower_char_def is_space_def is_space2_def
      is_space3_def)

lemma split_windows_linux: "split_on CHR '','' ''windows,linux'' = [''windows'', ''linux'']"
  by simp

text \<open>What \<open>generateImages\<close> does on every node: it goes on exactly when \<open>repository\<close> is
  a string and \<open>tag\<close> is present, whatever the tag's type, and then emits for one target.\<close>

lemma generateImages_proceeds:
  assumes "lookup node ''repository'' = Some (YScalar (SStr repo))"
    and "lookup node ''tag'' = Some t"
  shows "generateImages composite chart node acc osType =
           (if osType = (if lookup node ''os'' = Some (YScalar (SStr ''windows'')) then Windows else Linux)
            then addSourceToImage acc (repo @ '':'' @ sprint_v composite t) [chart] else acc)"
  using assms by (cases osType) (simp_all add: generateImages_def)

lemma generateImages_noop:
  assumes "(\<forall>repo. lookup node ''repository'' \<noteq> Some (YScalar (SStr repo))) \<or>
           lookup node ''tag'' = None"
  shows "generateImages composite chart node acc osType = acc"
  using assms
  by (auto simp: generateImages_def split: option.splits yaml.splits scalar.splits)

lemma pick_visitor_noop:
  assumes "(\<forall>repo. lookup node ''repository'' \<noteq> Some (YScalar (SStr repo))) \<or>
           (\<forall>tag. lookup node ''tag'' \<noteq> Some (YScalar (SStr tag)))"
  shows "pick_visitor chart osType node acc = acc"
  using assms
  by (auto simp: pick_visitor_def split: option.splits yaml.splits scalar.splits)

text \<open>
  Claim C1 (OS partitioning), as the code has it.  For a node whose \<open>repository\<close> and \<open>tag\<close>
  are strings: with \<open>os: windows\<close> neither extractor emits in a Linux-targeted run; with no
  \<open>os\<close> field neither emits in a Windows-targeted run; with \<open>os: "windows,linux"\<close> the
  visitor of \<open>pickImagesFromValuesMap\<close> emits the image in both runs, while \<open>generateImages\<close>,
  which knows the one value \<open>"windows"\<close>, emits it in the Linux-targeted run only.
\<close>

theorem os_partition:
  assumes "lookup node ''repository'' = Some (YScalar (SStr repo))"
    and "lookup node ''tag'' = Some (YScalar (SStr tag))"
  shows "(lookup node ''os'' = Some (YScalar (SStr ''windows'')) \<longrightarrow>
            generateImages composite chart node acc Linux = acc \<and>
            pick_visitor chart Linux node acc = acc) \<and>
         (lookup node ''os'' = None \<longrightarrow>
            generateImages composite chart node acc Windows = acc \<and>
            pick_visitor chart Windows node acc = acc) \<and>
         (lookup node ''os'' = Some (YScalar (SStr ''windows,linux'')) \<longrightarrow>
            pick_visitor chart Linux node acc = addSourceToImage acc (repo @ '':'' @ tag) [chart] \<and>
            pick_visitor chart Windows node acc = addSourceToImage acc (repo @ '':'' @ tag) [chart] \<and>
            generateImages composite chart node acc Linux =
              addSourceToImage acc (repo @ '':'' @ tag) [chart] \<and>
            generateImages composite chart node acc Windows = acc)"
  using assms
  by (simp add: generateImages_def pick_visitor_def split_windows_linux
      to_lower_windows to_lower_linux)

theorem os_partition_witness:
  "generateImages (\<lambda>v. []) ''foo:v2''
     [(SStr ''repository'', YScalar (SStr ''rancher/foo'')), (SStr ''tag'', YScalar (SStr ''1.0'')),
      (SStr ''os'', YScalar (SStr ''windows''))] Map.empty Linux = Map.empty \<and>
   pick_visitor ''foo:v2'' Linux
     [(SStr ''repository'', YScalar (SStr ''rancher/foo'')), (SStr ''tag'', YScalar (SStr ''1.0'')),
      (SStr ''os'', YScalar (SStr ''windows''))] Map.empty = Map.empty \<and>
   generateImages (\<lambda>v. []) ''foo:v2''
     [(SStr ''repository'', YScalar (SStr ''rancher/foo'')), (SStr ''tag'', YScalar (SStr ''1.0''))]
     Map.empty Windows = Map.empty \<and>
   pick_visitor ''foo:v2'' Windows
     [(SStr ''repository'', YScalar (SStr ''rancher/foo'')), (SStr ''tag'', YScalar (SStr ''1.0''))]
     Map.empty = Map.empty \<and>
   pick_visitor ''foo:v2'' Linux
     [(SStr ''repository'', YScalar (SStr ''rancher/foo'')), (SStr ''tag'', YScalar (SStr ''1.0'')),
      (SStr ''os'', YScalar (SStr ''windows,linux''))] Map.empty =
     addSourceToImage Map.empty ''rancher/foo:1.0'' [''foo:v2''] \<and>
   pick_visitor ''foo:v2'' Windows
     [(SStr ''repository'', YScalar (SStr ''rancher/foo'')), (SStr ''tag'', YScalar (SStr ''1.0'')),
      (SStr ''os'', YScalar (SStr ''windows,linux''))] Map.empty =
     addSourceToImage Map.empty ''rancher/foo:1.0'' [''foo:v2'']"
proof -
  let ?r = "(SStr ''repository'', YScalar (SStr ''rancher/foo''))"
  let ?t = "(SStr ''tag'', YScalar (SStr ''1.0''))"
  let ?w = "[?r, ?t, (SStr ''os'', YScalar (SStr ''windows''))]"
  let ?n = "[?r, ?t]"
  let ?b = "[?r, ?t, (SStr ''os'', YScalar (SStr ''windows,linux''))]"
  have w: "lookup ?w ''repository'' = Some (YScalar (SStr ''rancher/foo''))"
    "lookup ?w ''tag'' = Some (YScalar (SStr ''1.0''))"
    "lookup ?w ''os'' = Some (YScalar (SStr ''windows''))"
    by (simp_all add: lookup_def)
  have n: "lookup ?n ''repository'' = Some (YScalar (SStr ''rancher/foo''))"
    "lookup ?n ''tag'' = Some (YScalar (SStr ''1.0''))"
    "lookup ?n ''os'' = None"
    by (simp_all add: lookup_def)
  have b: "lookup ?b ''repository'' = Some (YScalar (SStr ''rancher/foo''))"
    "lookup ?b ''tag'' = Some (YScalar (SStr ''1.0''))"
    "lookup ?b ''os'' = Some (YScalar (SStr ''windows,linux''))"
    by (simp_all add: lookup_def)
  from os_partition [OF w(1,2), of "\<lambda>v. []" "''foo:v2''" Map.empty] w(3)
  have 1: "generateImages (\<lambda>v. []) ''foo:v2'' ?w Map.empty Linux = Map.empty \<and>
           pick_visitor ''foo:v2'' Linux ?w Map.empty = Map.empty"
    by blast
  from os_partition [OF n(1,2), of "\<lambda>v. []" "''foo:v2''" Map.empty] n(3)
  have 2: "generateImages (\<lambda>v. []) ''foo:v2'' ?n Map.empty Windows = Map.empty \<and>
           pick_visitor ''foo:v2'' Windows ?n Map.empty = Map.empty"
    by blast
  from os_partition [OF b(1,2), of "\<lambda>v. []" "''foo:v2''" Map.empty] b(3)
  have 3: "pick_visitor ''foo:v2'' Linux ?b Map.empty =
             addSourceToImage Map.empty (''rancher/foo'' @ '':'' @ ''1.0'') [''foo:v2''] \<and>
           pick_visitor ''foo:v2'' Windows ?b Map.empty =
             addSourceToImage Map.empty (''rancher/foo'' @ '':'' @ ''1.0'') [''foo:v2'']"
    by blast
  from 1 2 3 show ?thesis by simp
qed

text \<open>
  The claim as the specification states it fails on \<open>generateImages\<close>: a node declared
  \<open>os: "windows,linux"\<close> is not emitted in a Windows-targeted run.
\<close>

theorem os_partition_counterexample:
  "generateImages (\<lambda>v. []) ''foo:v2''
     [(SStr ''repository'', YScalar (SStr ''rancher/foo'')), (SStr ''tag'', YScalar (SStr ''1.0'')),
      (SStr ''os'', YScalar (SStr ''windows,linux''))] Map.empty Windows = Map.empty"
  by (simp add: generateImages_def lookup_def)

text \<open>
  Claim C7 (tag tolerance) at a node whose tag is the integer 1, in a Linux-targeted run:
  \<open>generateImages\<close> emits \<open>rancher/foo:1\<close>, the tag printed by \<open>%v\<close>, and the visitor of
  \<open>pickImagesFromValuesMap\<close>, which asserts the tag to be a string before it formats it with
  \<open>%v\<close>, skips the node.
\<close>

theorem tag_tolerance_failing_input:
  "generateImages (\<lambda>v. []) ''foo:v2''
     [(SStr ''repository'', YScalar (SStr ''rancher/foo'')), (SStr ''tag'', YScalar (SInt 1))]
     Map.empty Linux = addSourceToImage Map.empty ''rancher/foo:1'' [''foo:v2''] \<and>
   pick_visitor ''foo:v2'' Linux
     [(SStr ''repository'', YScalar (SStr ''rancher/foo'')), (SStr ''tag'', YScalar (SInt 1))]
     Map.empty = Map.empty"
  by (simp add: generateImages_def pick_visitor_def lookup_def show_int_def show_nat.simps digit_char_def)

section \<open>Properties of the tree walkers\<close>

lemma walkMap_map_nodes:
  "walkMap t f s = fold f (map_nodes t) s"
  "fold (\<lambda>v s'. walkMap v f s') vs s = fold f (map_nodes_list vs) s"
  by (induction t and vs arbitrary: s and s rule: map_nodes_map_nodes_list.induct) simp_all

lemma walkthroughMap_legacy_nodes:
  "t = YMap es \<Longrightarrow> walkthroughMap es f s = fold f (legacy_nodes t) s"
  "fold (\<lambda>v s'. case v of YMap m \<Rightarrow> walkthroughMap m f s' | _ \<Rightarrow> s') vs s =
     fold f (legacy_nodes_list vs) s"
proof (induction t and vs arbitrary: es s and s rule: legacy_nodes_legacy_nodes_list.induct)
  case (5 v vs)
  then show ?case by (cases v) simp_all
qed simp_all

lemma entries_at_Cons:
  "i < length (children t) \<Longrightarrow> entries_at t (i # p) = entries_at (children t ! i) p"
  by (simp add: entries_at_def)

lemma map_nodes_paths:
  "map_nodes t = map (entries_at t) (walk_paths t)"
  "children c = pre @ vs \<Longrightarrow>
     map (entries_at c) (walk_paths_list (length pre) vs) = map_nodes_list vs"
proof (induction t and vs arbitrary: and c pre rule: map_nodes_map_nodes_list.induct)
  case (1 es)
  from 1 [of "YMap es" "[]"] show ?case
    by (simp add: children_def entries_at_def)
next
  case (2 xs)
  from 2 [of "YSeq xs" "[]"] show ?case
    by (simp add: children_def)
next
  case (5 v vs)
  have i: "length pre < length (children c)" and n: "children c ! length pre = v"
    using 5(3) by simp_all
  have "children c = (pre @ [v]) @ vs" using 5(3) by simp
  from 5(2) [OF this] have r: "map (entries_at c) (walk_paths_list (Suc (length pre)) vs) = map_nodes_list vs"
    by simp
  show ?case
    using r 5(1) i n by (simp add: entries_at_Cons comp_def)
qed simp_all

lemma set_walk_paths_list:
  "set (walk_paths_list i vs) = {(i + k) # q | k q. k < length vs \<and> q \<in> set (walk_paths (vs ! k))}"
proof (induction vs arbitrary: i)
  case Nil
  then show ?case by simp
next
  case (Cons v vs)
  show ?case (is "?L = ?R")
  proof (intro set_eqI iffI)
    fix p assume "p \<in> ?L"
    then consider q where "p = i # q" "q \<in> set (walk_paths v)"
      | "p \<in> set (walk_paths_list (Suc i) vs)" by auto
    then show "p \<in> ?R"
    proof cases
      case 1
      then have "p = (i + 0) # q \<and> 0 < length (v # vs) \<and> q \<in> set (walk_paths ((v # vs) ! 0))"
        by simp
      then show ?thesis by blast
    next
      case 2
      then obtain k q where "p = (Suc i + k) # q" "k < length vs" "q \<in> set (walk_paths (vs ! k))"
        unfolding Cons.IH by blast
      then have "p = (i + Suc k) # q \<and> Suc k < length (v # vs) \<and> q \<in> set (walk_paths ((v # vs) ! Suc k))"
        by simp
      then show ?thesis by blast
    qed
  next
    fix p assume "p \<in> ?R"
    then obtain k q where p: "p = (i + k) # q" "k < length (v # vs)" "q \<in> set (walk_paths ((v # vs) ! k))"
      by blast
    show "p \<in> ?L"
    proof (cases k)
      case 0
      with p show ?thesis by simp
    next
      case (Suc k')
      with p have "p = (Suc i + k') # q \<and> k' < length vs \<and> q \<in> set (walk_paths (vs ! k'))"
        by simp
      then have "p \<in> set (walk_paths_list (Suc i) vs)"
        unfolding Cons.IH by blast
      then show ?thesis by simp
    qed
  qed
qed

lemma set_walk_paths_unfold:
  "set (walk_paths t) =
     (case t of YMap es \<Rightarrow> {[]} | _ \<Rightarrow> {}) \<union>
     {k # q | k q. k < length (children t) \<and> q \<in> set (walk_paths (children t ! k))}"
  by (cases t) (simp_all add: set_walk_paths_list children_def)

lemma walk_paths_iff: "p \<in> set (walk_paths t) \<longleftrightarrow> (\<exists>es. node_at t p = Some (YMap es))"
proof (induction p arbitrary: t)
  case Nil
  show ?case by (subst set_walk_paths_unfold) (cases t; simp)
next
  case (Cons k q)
  show ?case by (subst set_walk_paths_unfold) (cases t; simp add: Cons.IH)
qed

lemma distinct_walk_paths:
  "distinct (walk_paths t)"
  "distinct (walk_paths_list i vs)"
proof (induction t and i vs rule: walk_paths_walk_paths_list.induct)
  case (1 es)
  then show ?case by (auto simp: set_walk_paths_list)
next
  case (5 i v vs)
  then show ?case by (auto simp: set_walk_paths_list distinct_map)
qed simp_all


lemma no_seq_above_child:
  assumes "children (YMap es) = pre @ v # vs"
  shows "no_seq_above (YMap es) (length pre # p) = no_seq_above v p"
proof -
  have m: "map snd es = pre @ v # vs" using assms by (simp add: children_def)
  then have "length pre < length (map snd es)" by simp
  then have l: "length pre < length es" by simp
  have "map snd es ! length pre = v" using m by simp
  with l have "snd (es ! length pre) = v" by simp
  with l show ?thesis by simp
qed

lemma legacy_nodes_paths:
  "legacy_nodes t = map (entries_at t) (filter (no_seq_above t) (walk_paths t))"
  "children (YMap es) = pre @ vs \<Longrightarrow>
     map (entries_at (YMap es)) (filter (no_seq_above (YMap es)) (walk_paths_list (length pre) vs)) =
       legacy_nodes_list vs"
proof (induction t and vs arbitrary: and es pre rule: legacy_nodes_legacy_nodes_list.induct)
  case (1 es)
  from 1 [of es "[]"] show ?case
    by (simp add: children_def entries_at_def)
next
  case (2 xs)
  have "\<forall>p\<in>set (walk_paths (YSeq xs)). \<not> no_seq_above (YSeq xs) p"
    by (auto simp: set_walk_paths_list)
  then have "filter (no_seq_above (YSeq xs)) (walk_paths (YSeq xs)) = []"
    by (simp only: filter_False)
  then show ?case by simp
next
  case (5 v vs)
  have i: "length pre < length (children (YMap es))" and n: "children (YMap es) ! length pre = v"
    using 5(3) by simp_all
  have "children (YMap es) = (pre @ [v]) @ vs" using 5(3) by simp
  from 5(2) [OF this]
  have r: "map (entries_at (YMap es))
             (filter (no_seq_above (YMap es)) (walk_paths_list (Suc (length pre)) vs)) =
           legacy_nodes_list vs"
    by simp
  have f: "filter (no_seq_above (YMap es)) (map ((#) (length pre)) (walk_paths v)) =
           map ((#) (length pre)) (filter (no_seq_above v) (walk_paths v))"
    by (simp add: filter_map comp_def no_seq_above_child [OF 5(3)] del: no_seq_above.simps)
  show ?case
    using r 5(1) i n by (simp add: f entries_at_Cons comp_def del: no_seq_above.simps)
qed simp_all

text \<open>
  What the two walkers visit.  \<open>walkMap\<close> calls the visitor on the mappings at the
  positions \<open>walk_paths t\<close>, in that order and for every visitor and state; these positions
  are pairwise different and are exactly the positions of the tree that hold a mapping, the
  root and the mappings inside sequences included.  So every mapping node is visited exactly
  once; the visitor only ever receives a mapping, and a scalar is a no-op.  \<open>walkthroughMap\<close>
  calls the visitor on a part of them only: the mappings that have no sequence above them.
\<close>

theorem walker_completeness:
  "walkMap t f s = fold f (map (entries_at t) (walk_paths t)) s \<and>
   distinct (walk_paths t) \<and>
   set (walk_paths t) = {p. \<exists>es. node_at t p = Some (YMap es)} \<and>
   walkMap (YScalar x) f s = s \<and>
   walkthroughMap root f s =
     fold f (map (entries_at (YMap root))
               (filter (no_seq_above (YMap root)) (walk_paths (YMap root)))) s"
  using walkMap_map_nodes(1) [of t f s] walkthroughMap_legacy_nodes(1) [OF refl, of root f s]
  by (auto simp: map_nodes_paths(1) legacy_nodes_paths(1) distinct_walk_paths(1) walk_paths_iff)

theorem walker_completeness_witness:
  "walkMap (YMap [(SStr ''a'', YSeq [YMap [(SStr ''tag'', YScalar (SInt 1))], YScalar SNil]),
                  (SStr ''b'', YMap [])]) (\<lambda>m visited. visited @ [m]) [] =
     [[(SStr ''a'', YSeq [YMap [(SStr ''tag'', YScalar (SInt 1))], YScalar SNil]), (SStr ''b'', YMap [])],
      [(SStr ''tag'', YScalar (SInt 1))],
      []] \<and>
   walk_paths (YMap [(SStr ''a'', YSeq [YMap [(SStr ''tag'', YScalar (SInt 1))], YScalar SNil]),
                  (SStr ''b'', YMap [])]) = [[], [0, 0], [1]]"
proof -
  let ?t = "YMap [(SStr ''a'', YSeq [YMap [(SStr ''tag'', YScalar (SInt 1))], YScalar SNil]),
                  (SStr ''b'', YMap [])]"
  have p: "walk_paths ?t = [[], [0, 0], [1]]" by simp
  from walker_completeness [of ?t "\<lambda>m visited. visited @ [m]" "[]"]
  have "walkMap ?t (\<lambda>m visited. visited @ [m]) [] =
          fold (\<lambda>m visited. visited @ [m]) (map (entries_at ?t) (walk_paths ?t)) []"
    by blast
  then show ?thesis
    unfolding p by (simp add: entries_at_def children_def)
qed

text \<open>
  Claim C3 (walker completeness) at a tree with a mapping inside a sequence, the values
  \<open>images: [{repository: rancher/foo, tag: "1.0"}]\<close>.  The mapping at position \<open>[0, 0]\<close> is
  a mapping node of the tree.  \<open>walkthroughMap\<close>, the walker of the file-walk path, visits the
  root only, so that path finds no image in these values; \<open>walkMap\<close> visits the mapping, and
  \<open>pickImagesFromValuesMap\<close> finds \<open>rancher/foo:1.0\<close>.
\<close>

theorem walker_completeness_failing_input:
  "node_at (YMap [(SStr ''images'', YSeq [YMap [(SStr ''repository'', YScalar (SStr ''rancher/foo'')),
                                              (SStr ''tag'', YScalar (SStr ''1.0''))]])]) [0, 0] =
     Some (YMap [(SStr ''repository'', YScalar (SStr ''rancher/foo'')),
                 (SStr ''tag'', YScalar (SStr ''1.0''))]) \<and>
   walkthroughMap [(SStr ''images'', YSeq [YMap [(SStr ''repository'', YScalar (SStr ''rancher/foo'')),
                                              (SStr ''tag'', YScalar (SStr ''1.0''))]])]
     (\<lambda>m visited. visited @ [m]) [] =
     [[(SStr ''images'', YSeq [YMap [(SStr ''repository'', YScalar (SStr ''rancher/foo'')),
                                     (SStr ''tag'', YScalar (SStr ''1.0''))]])]] \<and>
   walkMap (YMap [(SStr ''images'', YSeq [YMap [(SStr ''repository'', YScalar (SStr ''rancher/foo'')),
                                             (SStr ''tag'', YScalar (SStr ''1.0''))]])])
     (\<lambda>m visited. visited @ [m]) [] =
     [[(SStr ''images'', YSeq [YMap [(SStr ''repository'', YScalar (SStr ''rancher/foo'')),
                                     (SStr ''tag'', YScalar (SStr ''1.0''))]])],
      [(SStr ''repository'', YScalar (SStr ''rancher/foo'')), (SStr ''tag'', YScalar (SStr ''1.0''))]] \<and>
   pickImagesFromValues (\<lambda>v. []) Map.empty
     [(SStr ''images'', YSeq [YMap [(SStr ''repository'', YScalar (SStr ''rancher/foo'')),
                                    (SStr ''tag'', YScalar (SStr ''1.0''))]])] ''foo:v2'' Linux =
     Map.empty \<and>
   pickImagesFromValuesMap Map.empty
     [(SStr ''images'', YSeq [YMap [(SStr ''repository'', YScalar (SStr ''rancher/foo'')),
                                    (SStr ''tag'', YScalar (SStr ''1.0''))]])] ''foo:v2'' Linux =
     addSourceToImage Map.empty ''rancher/foo:1.0'' [''foo:v2'']"
  by (simp add: children_def pickImagesFromValues_def pickImagesFromValuesMap_def
      generateImages_def pick_visitor_def lookup_def)

section \<open>Properties of the version selection\<close>

lemma versions_loop_ok:
  assumes "\<forall>v\<in>set vs. \<exists>b. version_in_range fs lib rv v = Inr b"
  shows "versions_loop fs lib rv vs acc =
           Inr (acc @ filter (\<lambda>v. version_in_range fs lib rv v = Inr True) vs)"
  using assms by (induction vs arbitrary: acc) auto

lemma versions_loop_error:
  assumes "v \<in> set vs" and "version_in_range fs lib rv v = Inl e"
  shows "\<exists>e'. versions_loop fs lib rv vs acc = Inl e'"
  using assms by (induction vs arbitrary: acc) (auto split: sum.splits)

lemma versions_loop_first_error:
  assumes "\<forall>v\<in>set pre. \<exists>b. version_in_range fs lib rv v = Inr b"
    and "version_in_range fs lib rv v = Inl e"
  shows "versions_loop fs lib rv (pre @ v # post) acc = Inl e"
  using assms by (induction pre arbitrary: acc) auto

lemma filter_loop_eq:
  "filter_loop f vs (logged, kept) =
     (logged @ concat (map (\<lambda>v. case f v of Inl e \<Rightarrow> [e] | Inr b \<Rightarrow> []) vs),
      kept @ filter (\<lambda>v. f v = Inr True) vs)"
  by (induction vs arbitrary: logged kept) (auto split: sum.splits)

lemma getVersions_nonempty:
  assumes "versions \<noteq> []"
  shows "getVersionsInRancherMinMaxRange fs lib rv versions \<noteq> Inr []"
  using assms
  by (auto simp: getVersionsInRancherMinMaxRange_def split: sum.splits list.splits)

lemma demo_questions:
  "fetchVersionQuestions demo_fs (demo_version ''foo/v1'' ''1.0.0'') =
     Inr [(SStr ''rancher_min_version'', YScalar (SStr ''2.5.0'')),
          (SStr ''rancher_max_version'', YScalar (SStr ''2.6.0''))]"
  "fetchVersionQuestions demo_fs (demo_version ''foo/v2'' ''2.0.0'') =
     Inr [(SStr ''rancher_min_version'', YScalar (SStr ''2.6.1''))]"
  "fetchVersionQuestions demo_fs (demo_version ''malformed'' ''3.0.0'') =
     Inr [(SStr ''rancher_min_version'', YScalar (SStr ''latest''))]"
  "fetchVersionQuestions demo_fs (demo_version ''unreadable'' ''4.0.0'') =
     Inl (Error ''open unreadable/questions.yaml: permission denied'')"
  by (simp_all add: fetchVersionQuestions_def demo_fs_def demo_version_def base_def equal_fold_def
      lower_char_def)

lemma demo_in_range:
  "version_in_range demo_fs demo_semver ''2.6.3'' (demo_version ''foo/v1'' ''1.0.0'') = Inr False"
  "version_in_range demo_fs demo_semver ''2.6.3'' (demo_version ''foo/v2'' ''2.0.0'') = Inr True"
  "version_in_range demo_fs demo_semver ''2.4.0'' (demo_version ''foo/v1'' ''1.0.0'') = Inr False"
  "version_in_range demo_fs demo_semver ''2.4.0'' (demo_version ''foo/v2'' ''2.0.0'') = Inr False"
  "version_in_range demo_fs demo_semver ''2.4.0'' (demo_version ''malformed'' ''3.0.0'') =
     Inl (Error ''Invalid Semantic Version'')"
  "version_in_range demo_fs demo_semver ''2.6.3'' (demo_version ''unreadable'' ''4.0.0'') =
     Inl (Error ''open unreadable/questions.yaml: permission denied'')"
  by (simp_all add: version_in_range_def demo_questions string_field_def lookup_def demo_semver_def
      trim_space_def is_space_def is_space2_def is_space3_def)


text \<open>
  Claim C2 (selection fallback), as the code has it.  For a bundle with at least one version,
  \<open>getVersionsInRancherMinMaxRange\<close> never returns an empty selection.  When the metadata of
  every version reads and parses, it returns the versions whose range admits the target, and
  when there is none exactly the first version of the list, the newest.  When the metadata of
  a version fails to read or parse it returns an error and no version.
  \<open>filterChartVersions\<close> has no fallback: it returns the versions its filter accepts,
  possibly none.
\<close>

theorem selection_fallback:
  assumes "versions \<noteq> []"
  shows "getVersionsInRancherMinMaxRange fs lib rv versions \<noteq> Inr [] \<and>
         ((\<forall>v\<in>set versions. \<exists>b. version_in_range fs lib rv v = Inr b) \<longrightarrow>
            getVersionsInRancherMinMaxRange fs lib rv versions =
              Inr (if filter (\<lambda>v. version_in_range fs lib rv v = Inr True) versions = []
                   then [hd versions]
                   else filter (\<lambda>v. version_in_range fs lib rv v = Inr True) versions)) \<and>
         ((\<exists>v\<in>set versions. \<exists>e. version_in_range fs lib rv v = Inl e) \<longrightarrow>
            (\<exists>e. getVersionsInRancherMinMaxRange fs lib rv versions = Inl e)) \<and>
         snd (filterChartVersions f versions) = Inr (filter (\<lambda>v. f v = Inr True) versions)"
proof (intro conjI impI)
  show "getVersionsInRancherMinMaxRange fs lib rv versions \<noteq> Inr []"
    using assms by (rule getVersions_nonempty)
next
  assume "\<forall>v\<in>set versions. \<exists>b. version_in_range fs lib rv v = Inr b"
  from versions_loop_ok [OF this, of "[]"] assms
  show "getVersionsInRancherMinMaxRange fs lib rv versions =
          Inr (if filter (\<lambda>v. version_in_range fs lib rv v = Inr True) versions = []
               then [hd versions]
               else filter (\<lambda>v. version_in_range fs lib rv v = Inr True) versions)"
    by (cases versions) (simp_all add: getVersionsInRancherMinMaxRange_def)
next
  assume "\<exists>v\<in>set versions. \<exists>e. version_in_range fs lib rv v = Inl e"
  then obtain v e where "v \<in> set versions" "version_in_range fs lib rv v = Inl e"
    by blast
  from versions_loop_error [OF this, of "[]"]
  show "\<exists>e. getVersionsInRancherMinMaxRange fs lib rv versions = Inl e"
    by (auto simp: getVersionsInRancherMinMaxRange_def)
next
  show "snd (filterChartVersions f versions) = Inr (filter (\<lambda>v. f v = Inr True) versions)"
    by (simp add: filterChartVersions_def filter_loop_eq)
qed

theorem selection_fallback_witness:
  "getVersionsInRancherMinMaxRange demo_fs demo_semver ''2.4.0''
     [demo_version ''foo/v2'' ''2.0.0'', demo_version ''foo/v1'' ''1.0.0''] =
     Inr [demo_version ''foo/v2'' ''2.0.0''] \<and>
   getVersionsInRancherMinMaxRange demo_fs demo_semver ''2.6.3''
     [demo_version ''foo/v2'' ''2.0.0'', demo_version ''foo/v1'' ''1.0.0''] =
     Inr [demo_version ''foo/v2'' ''2.0.0'']"
proof -
  let ?vs = "[demo_version ''foo/v2'' ''2.0.0'', demo_version ''foo/v1'' ''1.0.0'']"
  have n: "?vs \<noteq> []" by simp
  have a: "\<forall>v\<in>set ?vs. \<exists>b. version_in_range demo_fs demo_semver ''2.4.0'' v = Inr b"
    by (auto simp: demo_in_range)
  have b: "\<forall>v\<in>set ?vs. \<exists>b. version_in_range demo_fs demo_semver ''2.6.3'' v = Inr b"
    by (auto simp: demo_in_range)
  from selection_fallback [OF n, of demo_fs demo_semver "''2.4.0''"] a
  have 1: "getVersionsInRancherMinMaxRange demo_fs demo_semver ''2.4.0'' ?vs =
      Inr (if filter (\<lambda>v. version_in_range demo_fs demo_semver ''2.4.0'' v = Inr True) ?vs = []
           then [hd ?vs]
           else filter (\<lambda>v. version_in_range demo_fs demo_semver ''2.4.0'' v = Inr True) ?vs)"
    by blast
  from selection_fallback [OF n, of demo_fs demo_semver "''2.6.3''"] b
  have 2: "getVersionsInRancherMinMaxRange demo_fs demo_semver ''2.6.3'' ?vs =
      Inr (if filter (\<lambda>v. version_in_range demo_fs demo_semver ''2.6.3'' v = Inr True) ?vs = []
           then [hd ?vs]
           else filter (\<lambda>v. version_in_range demo_fs demo_semver ''2.6.3'' v = Inr True) ?vs)"
    by blast
  from 1 2 show ?thesis
    by (simp add: demo_in_range)
qed

text \<open>
  The claim as the specification states it fails twice.  No range admits the target when the
  only version declares the minimum \<open>latest\<close>, and the selector returns an error, not that
  version; and \<open>filterChartVersions\<close> returns no version when its filter accepts none.
\<close>

theorem selection_fallback_counterexample:
  "getVersionsInRancherMinMaxRange demo_fs demo_semver ''2.4.0''
     [demo_version ''malformed'' ''3.0.0''] = Inl (Error ''Invalid Semantic Version'') \<and>
   filterChartVersions (\<lambda>v. Inr False) [demo_version ''foo/v2'' ''2.0.0''] = ([], Inr [])"
  by (simp add: getVersionsInRancherMinMaxRange_def demo_in_range filterChartVersions_def)

text \<open>
  Claim C6 (filter errors), as the code has it.  \<open>filterChartVersions\<close> logs the error of
  every version whose filter fails, in order, skips those versions only, keeps every version
  the filter accepts, and returns no error.  \<open>getVersionsInRancherMinMaxRange\<close> does not
  degrade: the first version whose metadata fails to evaluate makes it return that error, and
  no version is selected.
\<close>

theorem filter_error_degradation:
  "filterChartVersions f versions =
     (concat (map (\<lambda>v. case f v of Inl e \<Rightarrow> [e] | Inr b \<Rightarrow> []) versions),
      Inr (filter (\<lambda>v. f v = Inr True) versions)) \<and>
   ((\<forall>v\<in>set pre. \<exists>b. version_in_range fs lib rv v = Inr b) \<and>
    version_in_range fs lib rv bad = Inl e \<longrightarrow>
      getVersionsInRancherMinMaxRange fs lib rv (pre @ bad # post) = Inl e)"
  by (simp add: filterChartVersions_def filter_loop_eq getVersionsInRancherMinMaxRange_def
      versions_loop_first_error)

theorem filter_error_degradation_witness:
  "filterChartVersions (version_in_range demo_fs demo_semver ''2.6.3'')
     [demo_version ''foo/v2'' ''2.0.0'', demo_version ''unreadable'' ''4.0.0'',
      demo_version ''foo/v1'' ''1.0.0''] =
     ([Error ''open unreadable/questions.yaml: permission denied''],
      Inr [demo_version ''foo/v2'' ''2.0.0'']) \<and>
   getVersionsInRancherMinMaxRange demo_fs demo_semver ''2.6.3''
     ([demo_version ''foo/v2'' ''2.0.0''] @ demo_version ''unreadable'' ''4.0.0'' #
      [demo_version ''foo/v1'' ''1.0.0'']) =
     Inl (Error ''open unreadable/questions.yaml: permission denied'')"
proof -
  have p: "\<forall>v\<in>set [demo_version ''foo/v2'' ''2.0.0''].
             \<exists>b. version_in_range demo_fs demo_semver ''2.6.3'' v = Inr b"
    by (auto simp: demo_in_range)
  from filter_error_degradation [of "version_in_range demo_fs demo_semver ''2.6.3''"
      "[demo_version ''foo/v2'' ''2.0.0'', demo_version ''unreadable'' ''4.0.0'',
        demo_version ''foo/v1'' ''1.0.0'']"
      "[demo_version ''foo/v2'' ''2.0.0'']" demo_fs demo_semver "''2.6.3''"
      "demo_version ''unreadable'' ''4.0.0''"
      "Error ''open unreadable/questions.yaml: permission denied''"
      "[demo_version ''foo/v1'' ''1.0.0'']"] p
  show ?thesis
    by (simp add: demo_in_range)
qed

text \<open>
  The claim as the specification states it fails on \<open>getVersionsInRancherMinMaxRange\<close>: the
  metadata of the second version cannot be read, and the selection is aborted with that error
  although the first version is admitted.
\<close>

theorem filter_error_degradation_counterexample:
  "getVersionsInRancherMinMaxRange demo_fs demo_semver ''2.6.3''
     [demo_version ''foo/v2'' ''2.0.0'', demo_version ''unreadable'' ''4.0.0''] =
     Inl (Error ''open unreadable/questions.yaml: permission denied'')"
  by (simp add: getVersionsInRancherMinMaxRange_def demo_in_range)

section \<open>Properties of mirror normalization\<close>

lemma convert_image_fixed: "mirror k = k \<Longrightarrow> convert_image mirror so k m = m"
  by (simp add: convert_image_def)

lemma sources_of_upd:
  "sources_of (m(c \<mapsto> f)) j = (if j = c then f else sources_of m j)"
  "sources_of (m(c := None)) j = (if j = c then Map.empty else sources_of m j)"
  by (simp_all add: sources_of_def)

lemma fold_migrate:
  "fold (\<lambda>source acc. if P source then addSourceToImage acc c [source] else acc) so m =
     (if \<exists>s\<in>set so. P s
      then m(c \<mapsto> (\<lambda>x. if x \<in> set so \<and> P x then Some True else sources_of m c x))
      else m)"
proof (induction so arbitrary: m)
  case Nil
  show ?case by simp
next
  case (Cons s so)
  show ?case
  proof (cases "P s")
    case False
    then show ?thesis by (auto simp: Cons.IH fun_eq_iff)
  next
    case True
    have a: "sources_of (addSourceToImage m c [s]) c = (\<lambda>x. if x = s then Some True else sources_of m c x)"
      by (auto simp: sources_of_add fun_eq_iff)
    show ?thesis
      using True by (auto simp: Cons.IH a fun_eq_iff addSourceToImage_def sources_of_upd)
  qed
qed

lemma convert_image_moved:
  assumes "mirror k \<noteq> k" and "range_order (sources_of m k) so"
  shows "convert_image mirror so k m =
           (if true_sources (sources_of m k) = {} then m(k := None)
            else m(k := None,
                   mirror k \<mapsto> (\<lambda>x. if x \<in> true_sources (sources_of m k) then Some True
                                       else sources_of m (mirror k) x)))"
proof -
  have s: "set so = dom (sources_of m k)" using assms(2) by (simp add: range_order_def)
  have e: "(\<exists>s\<in>set so. sources_of m k s = Some True) \<longleftrightarrow> true_sources (sources_of m k) \<noteq> {}"
    unfolding s by (auto simp: true_sources_def)
  have t: "\<And>x. (x \<in> set so \<and> sources_of m k x = Some True) \<longleftrightarrow> x \<in> true_sources (sources_of m k)"
    unfolding s by (auto simp: true_sources_def)
  show ?thesis
    using assms(1) by (auto simp: convert_image_def fold_migrate e t fun_eq_iff Let_def)
qed


lemma moved_sources_insert:
  "moved_sources mirror (insert k D) m0 j =
     (if mirror k = j \<and> k \<noteq> j then true_sources (sources_of m0 k) \<union> moved_sources mirror D m0 j
      else moved_sources mirror D m0 j)"
  by (auto simp: moved_sources_def)

lemma moved_sources_not_fixed:
  assumes "\<forall>x. mirror (mirror x) = mirror x" and "mirror k \<noteq> k"
  shows "moved_sources mirror D m0 k = {}"
proof -
  have "mirror a \<noteq> k" for a
  proof
    assume "mirror a = k"
    then have "mirror k = mirror (mirror a)" by simp
    also have "\<dots> = mirror a" using assms(1) by simp
    finally show False using assms(2) \<open>mirror a = k\<close> by simp
  qed
  then show ?thesis by (auto simp: moved_sources_def)
qed

lemma sources_of_migrated:
  assumes "\<not> (k \<in> D \<and> mirror k \<noteq> k)"
  shows "sources_of (migrated mirror D m0) k =
           (\<lambda>x. if x \<in> moved_sources mirror D m0 k then Some True else sources_of m0 k x)"
  using assms by (auto simp: migrated_def sources_of_def fun_eq_iff split: option.splits)

lemma migrated_empty: "migrated mirror {} m0 = m0"
  by (auto simp: migrated_def moved_sources_def sources_of_def fun_eq_iff split: option.splits)

lemma migrated_insert_fixed:
  assumes "mirror k = k"
  shows "migrated mirror (insert k D) m0 = migrated mirror D m0"
proof -
  have "\<And>j. moved_sources mirror (insert k D) m0 j = moved_sources mirror D m0 j"
    using assms by (simp add: moved_sources_insert)
  then show ?thesis
    using assms by (auto simp: migrated_def fun_eq_iff)
qed

lemma migrated_step:
  assumes idem: "\<forall>x. mirror (mirror x) = mirror x"
    and nf: "mirror k \<noteq> k"
    and present: "k \<in> dom (migrated mirror D m0)"
    and order: "range_order (sources_of (migrated mirror D m0) k) so"
  shows "k \<in> dom m0 \<and> k \<notin> D \<and>
         convert_image mirror so k (migrated mirror D m0) = migrated mirror (insert k D) m0"
proof -
  let ?m = "migrated mirror D m0"
  let ?c = "mirror k"
  let ?T = "true_sources (sources_of m0 k)"
  have mk: "moved_sources mirror D m0 k = {}"
    using idem nf by (rule moved_sources_not_fixed)
  have kD: "k \<notin> D" and k0: "k \<in> dom m0"
    using present nf mk by (auto simp: migrated_def split: if_splits)
  have sk: "sources_of ?m k = sources_of m0 k"
    using kD mk by (simp add: sources_of_migrated)
  have cfix: "mirror ?c = ?c" using idem by simp
  have sc: "sources_of ?m ?c =
              (\<lambda>x. if x \<in> moved_sources mirror D m0 ?c then Some True else sources_of m0 ?c x)"
    using cfix by (simp add: sources_of_migrated)
  have conv: "convert_image mirror so k ?m =
           (if ?T = {} then ?m(k := None)
            else ?m(k := None,
                   ?c \<mapsto> (\<lambda>x. if x \<in> ?T then Some True else sources_of ?m ?c x)))"
    using convert_image_moved [of mirror k ?m so, OF nf order] by (simp add: sk)
  have "convert_image mirror so k ?m j = migrated mirror (insert k D) m0 j" for j
  proof -
    consider "j = k" | "j = ?c" "j \<noteq> k" | "j \<noteq> k" "j \<noteq> ?c" by blast
    then show ?thesis
    proof cases
      case 1
      then show ?thesis using nf by (simp add: conv migrated_def)
    next
      case 2
      have mv: "moved_sources mirror (insert k D) m0 ?c = ?T \<union> moved_sources mirror D m0 ?c"
        using nf by (simp add: moved_sources_insert)
      show ?thesis
      proof (cases "?T = {}")
        case True
        then show ?thesis
          using 2 nf cfix by (simp add: conv migrated_def mv)
      next
        case False
        then show ?thesis
          using 2 nf cfix by (auto simp: conv migrated_def mv sc fun_eq_iff)
      qed
    next
      case 3
      have mv: "moved_sources mirror (insert k D) m0 j = moved_sources mirror D m0 j"
        using 3 by (simp add: moved_sources_insert)
      show ?thesis
        using 3 by (simp add: conv migrated_def mv)
    qed
  qed
  then have "convert_image mirror so k ?m = migrated mirror (insert k D) m0"
    by (rule ext)
  with kD k0 show ?thesis by simp
qed


lemma dom_migrated_pending:
  "p \<in> dom m0 \<Longrightarrow> p \<notin> D \<Longrightarrow> p \<in> dom (migrated mirror D m0)"
  by (simp add: migrated_def dom_def)

lemma dom_migrated_insert:
  "dom (migrated mirror (insert k D) m0) \<subseteq> insert (mirror k) (dom (migrated mirror D m0))"
proof
  fix j assume j: "j \<in> dom (migrated mirror (insert k D) m0)"
  show "j \<in> insert (mirror k) (dom (migrated mirror D m0))"
  proof (cases "j = mirror k")
    case True
    then show ?thesis by simp
  next
    case False
    then have "moved_sources mirror (insert k D) m0 j = moved_sources mirror D m0 j"
      by (auto simp: moved_sources_insert)
    with j show ?thesis
      by (auto simp: migrated_def dom_def split: if_splits)
  qed
qed

lemma dom_migrated_fixed:
  assumes "\<forall>x. mirror (mirror x) = mirror x" and "k \<in> dom (migrated mirror (dom m0) m0)"
  shows "mirror k = k"
proof (rule ccontr)
  assume nf: "mirror k \<noteq> k"
  from moved_sources_not_fixed [OF assms(1) nf] assms(2) nf show False
    by (auto simp: migrated_def dom_def split: if_splits)
qed

text \<open>One iteration keeps the invariant of the loop under an idempotent rule: the map is
  the accumulator with the visited images migrated, and every created key is a fixed point.\<close>

lemma range_next_invariant:
  assumes idem: "\<forall>x. mirror (mirror x) = mirror x"
    and P: "pending \<subseteq> dom m0"
    and m: "m = migrated mirror (dom m0 - pending) m0"
    and C: "created \<subseteq> dom m" "\<forall>k\<in>created. mirror k = k"
    and step: "range_next mirror (pending, created, m) (img, so) = Some (pending', created', m')"
  shows "pending' = pending - {img} \<and>
         m' = migrated mirror (dom m0 - pending') m0 \<and>
         created' \<subseteq> dom m' \<and> (\<forall>k\<in>created'. mirror k = k) \<and>
         (if img \<in> pending then created' \<subseteq> insert (mirror img) created
          else created' = created - {img} \<and> img \<in> created)"
proof -
  let ?D = "dom m0 - pending"
  from step have img: "img \<in> pending \<union> created" "img \<in> dom m"
    and ord: "range_order (sources_of m img) so"
    and m': "m' = convert_image mirror so img m"
    and p': "pending' = (pending - {img}) \<inter> dom m'"
    and c': "created' = ((created - {img}) \<inter> dom m') \<union> (dom m' - dom m)"
    by (auto simp: range_next_def Let_def split: if_splits)
  have Pm: "pending \<subseteq> dom m"
  proof
    fix p assume "p \<in> pending"
    with P have "p \<in> dom m0" "p \<notin> ?D" by auto
    then show "p \<in> dom m" unfolding m by (rule dom_migrated_pending)
  qed
  show ?thesis
  proof (cases "mirror img = img")
    case True
    have eq: "m' = m" using True m' by (simp add: convert_image_fixed)
    have pe: "pending' = pending - {img}" using p' eq Pm by auto
    have ce: "created' = created - {img}" using c' eq C(1) by auto
    have "dom m0 - pending' = ?D \<or> dom m0 - pending' = insert img ?D"
      using pe by auto
    then have "migrated mirror (dom m0 - pending') m0 = migrated mirror ?D m0"
      using True by (auto simp: migrated_insert_fixed)
    with eq m have me: "m' = migrated mirror (dom m0 - pending') m0" by simp
    from pe ce me eq C img show ?thesis by auto
  next
    case False
    then have ip: "img \<in> pending" using img(1) C(2) by auto
    from migrated_step [OF idem False, of ?D m0 so] img(2) ord
    have i0: "img \<in> dom m0" and ms: "m' = migrated mirror (insert img ?D) m0"
      unfolding m m' by simp_all
    have sub: "pending - {img} \<subseteq> dom m'"
    proof
      fix p assume "p \<in> pending - {img}"
      with P have "p \<in> dom m0" "p \<notin> insert img ?D" by auto
      then show "p \<in> dom m'" unfolding ms by (rule dom_migrated_pending)
    qed
    then have pe: "pending' = pending - {img}" using p' by auto
    have "dom m0 - pending' = insert img ?D" using pe i0 ip by auto
    with ms have me: "m' = migrated mirror (dom m0 - pending') m0" by simp
    have new: "dom m' \<subseteq> insert (mirror img) (dom m)"
      unfolding ms m by (rule dom_migrated_insert)
    have cs: "created' \<subseteq> insert (mirror img) created" using c' new by auto
    have cd: "created' \<subseteq> dom m'" using c' by auto
    have cf: "\<forall>k\<in>created'. mirror k = k" using cs C(2) idem by auto
    from pe me cd cf cs ip show ?thesis by simp
  qed
qed


lemma range_next_measure:
  assumes "finite pending" and "finite created"
    and "pending' = pending - {img}"
    and "if img \<in> pending then created' \<subseteq> insert (mirror img) created
         else created' = created - {img} \<and> img \<in> created"
  shows "finite pending' \<and> finite created' \<and>
         Suc (2 * card pending' + card created') \<le> 2 * card pending + card created"
proof (cases "img \<in> pending")
  case True
  then have c: "created' \<subseteq> insert (mirror img) created" using assms(4) by simp
  have fc: "finite created'" using c assms(2) by (auto intro: finite_subset)
  have "card created' \<le> card (insert (mirror img) created)"
    using c assms(2) by (auto intro: card_mono)
  also have "\<dots> \<le> Suc (card created)" using assms(2) by (simp add: card_insert_if)
  finally have cc: "card created' \<le> Suc (card created)" .
  have cp: "card pending' = card pending - 1" "card pending > 0"
    using True assms(1,3) by (auto simp: card_gt_0_iff)
  from fc cc cp assms(1,3) show ?thesis by auto
next
  case False
  then have c: "created' = created - {img}" "img \<in> created" using assms(4) by simp_all
  have cc: "card created' = card created - 1" "card created > 0"
    using c assms(2) by (auto simp: card_gt_0_iff)
  have "pending' = pending" using False assms(3) by auto
  with cc c assms(1,2) show ?thesis by auto
qed

lemma range_run_invariant:
  assumes idem: "\<forall>x. mirror (mirror x) = mirror x"
    and "pending \<subseteq> dom m0"
    and "m = migrated mirror (dom m0 - pending) m0"
    and "created \<subseteq> dom m" "\<forall>k\<in>created. mirror k = k"
    and "range_run mirror (pending, created, m) schedule = Some (pending', created', m')"
  shows "pending' \<subseteq> dom m0 \<and> m' = migrated mirror (dom m0 - pending') m0 \<and>
         created' \<subseteq> dom m' \<and> (\<forall>k\<in>created'. mirror k = k) \<and>
         (finite pending \<and> finite created \<longrightarrow>
            finite pending' \<and> finite created' \<and>
            length schedule + (2 * card pending' + card created') \<le> 2 * card pending + card created)"
  using assms(2-)
proof (induction schedule arbitrary: pending created m)
  case Nil
  then show ?case by auto
next
  case (Cons step rest)
  obtain img so where st: "step = (img, so)" by (cases step)
  from Cons.prems(5) obtain p1 c1 m1 where
    n: "range_next mirror (pending, created, m) (img, so) = Some (p1, c1, m1)"
    and r: "range_run mirror (p1, c1, m1) rest = Some (pending', created', m')"
    unfolding st by (auto split: option.splits)
  from range_next_invariant [OF idem Cons.prems(1) Cons.prems(2) Cons.prems(3) Cons.prems(4) n]
  have i: "p1 = pending - {img}" "m1 = migrated mirror (dom m0 - p1) m0"
    "c1 \<subseteq> dom m1" "\<forall>k\<in>c1. mirror k = k"
    "if img \<in> pending then c1 \<subseteq> insert (mirror img) created
     else c1 = created - {img} \<and> img \<in> created"
    by blast+
  have p1: "p1 \<subseteq> dom m0" using i(1) Cons.prems(1) by auto
  note ih = Cons.IH [OF p1 i(2) i(3) i(4) r]
  have fin: "finite pending \<and> finite created \<longrightarrow>
      finite pending' \<and> finite created' \<and>
      length (step # rest) + (2 * card pending' + card created') \<le> 2 * card pending + card created"
  proof
    assume f: "finite pending \<and> finite created"
    from f have fp: "finite pending" and fc: "finite created" by simp_all
    from range_next_measure [of pending created p1 img c1 mirror, OF fp fc i(1) i(5)]
    have ms: "finite p1" "finite c1" "Suc (2 * card p1 + card c1) \<le> 2 * card pending + card created"
      by simp_all
    with ih have r: "finite pending'" "finite created'"
      "length rest + (2 * card pending' + card created') \<le> 2 * card p1 + card c1"
      by blast+
    from r(3) ms(3) have "length (step # rest) + (2 * card pending' + card created') \<le>
        2 * card pending + card created"
      by simp
    with r(1,2) show "finite pending' \<and> finite created' \<and>
      length (step # rest) + (2 * card pending' + card created') \<le> 2 * card pending + card created"
      by blast
  qed
  from ih fin show ?case by blast
qed

lemma range_run_result:
  assumes "range_run mirror (pending, created, m) schedule = Some (pending', created', m')"
  shows "m' = convertMirroredImages mirror schedule m"
  using assms
proof (induction schedule arbitrary: pending created m)
  case Nil
  then show ?case by (simp add: convertMirroredImages_def)
next
  case (Cons step rest)
  obtain img so where st: "step = (img, so)" by (cases step)
  from Cons.prems obtain p1 c1 where
    r: "range_run mirror (p1, c1, convert_image mirror so img m) rest = Some (pending', created', m')"
    unfolding st by (auto simp: range_next_def Let_def split: option.splits if_splits)
  from Cons.IH [OF r] show ?case
    by (simp add: st convertMirroredImages_def)
qed

text \<open>Under an idempotent rule every run of the loop ends in the same accumulator.\<close>

lemma convertMirroredImages_migrated:
  assumes "\<forall>x. mirror (mirror x) = mirror x" and "range_complete mirror m0 schedule"
  shows "convertMirroredImages mirror schedule m0 = migrated mirror (dom m0) m0"
proof -
  from assms(2) obtain created m' where
    r: "range_run mirror (dom m0, {}, m0) schedule = Some ({}, created, m')"
    by (auto simp: range_complete_def split: option.splits)
  have "m0 = migrated mirror (dom m0 - dom m0) m0" by (simp add: migrated_empty)
  from range_run_invariant [OF assms(1) subset_refl this _ _ r]
  have "m' = migrated mirror (dom m0) m0" by simp
  with range_run_result [OF r] show ?thesis by simp
qed

lemma range_prefix_bounded:
  assumes "\<forall>x. mirror (mirror x) = mirror x" and "finite (dom m0)"
    and "range_prefix mirror m0 schedule"
  shows "length schedule \<le> 2 * card (dom m0)"
proof -
  from assms(3) obtain pending created m' where
    r: "range_run mirror (dom m0, {}, m0) schedule = Some (pending, created, m')"
    by (auto simp: range_prefix_def)
  have "m0 = migrated mirror (dom m0 - dom m0) m0" by (simp add: migrated_empty)
  from range_run_invariant [OF assms(1) subset_refl this _ _ r] assms(2)
  show ?thesis by simp
qed

lemma fixed_run_identity:
  assumes "\<forall>k\<in>dom m. mirror k = k"
    and "range_run mirror (pending, created, m) schedule = Some (pending', created', m')"
  shows "m' = m"
  using assms(2)
proof (induction schedule arbitrary: pending created)
  case Nil
  then show ?case by simp
next
  case (Cons step rest)
  obtain img so where st: "step = (img, so)" by (cases step)
  from Cons.prems have i: "img \<in> dom m"
    unfolding st by (auto simp: range_next_def split: option.splits if_splits)
  then have c: "convert_image mirror so img m = m"
    using assms(1) by (simp add: convert_image_fixed)
  from Cons.prems obtain p1 c1 where
    "range_run mirror (p1, c1, m) rest = Some (pending', created', m')"
    unfolding st by (auto simp: range_next_def Let_def c split: option.splits if_splits)
  then show ?case by (rule Cons.IH)
qed

lemma range_run_append:
  "range_run mirror st (s @ r) =
     (case range_run mirror st s of None \<Rightarrow> None | Some st' \<Rightarrow> range_run mirror st' r)"
  by (induction s arbitrary: st) (auto split: option.splits)

lemma finite_moved_sources:
  assumes "finite_images_set m0" and "D \<subseteq> dom m0"
  shows "finite (moved_sources mirror D m0 k)"
proof -
  have fD: "finite {a \<in> D. mirror a = k \<and> a \<noteq> k}"
    using assms by (auto simp: finite_images_set_def intro: finite_subset)
  have "finite (true_sources (sources_of m0 a))" for a
  proof -
    have "true_sources (sources_of m0 a) \<subseteq> dom (sources_of m0 a)"
      by (auto simp: true_sources_def)
    then show ?thesis
      using assms(1) by (auto simp: finite_images_set_def intro: finite_subset)
  qed
  with fD show ?thesis by (simp add: moved_sources_def)
qed

lemma finite_sources_migrated:
  assumes "finite_images_set m0" and "D \<subseteq> dom m0"
  shows "finite (dom (sources_of (migrated mirror D m0) k))"
proof (cases "k \<in> D \<and> mirror k \<noteq> k")
  case True
  then have "sources_of (migrated mirror D m0) k = Map.empty"
    by (simp add: migrated_def sources_of_def)
  then show ?thesis by simp
next
  case False
  have "dom (sources_of (migrated mirror D m0) k) \<subseteq>
          moved_sources mirror D m0 k \<union> dom (sources_of m0 k)"
    by (auto simp: sources_of_migrated [of k D mirror m0, OF False] split: if_splits)
  moreover have "finite (moved_sources mirror D m0 k \<union> dom (sources_of m0 k))"
    using finite_moved_sources [OF assms] assms(1) by (simp add: finite_images_set_def)
  ultimately show ?thesis by (rule finite_subset)
qed

text \<open>The loop is never stuck: whatever it has produced, it can go on to its end.\<close>

lemma range_run_extend:
  assumes idem: "\<forall>x. mirror (mirror x) = mirror x" and fin: "finite_images_set m0"
    and "pending \<subseteq> dom m0"
    and "m = migrated mirror (dom m0 - pending) m0"
    and "created \<subseteq> dom m" "\<forall>k\<in>created. mirror k = k"
  shows "\<exists>rest created' m'. range_run mirror (pending, created, m) rest = Some ({}, created', m')"
  using assms(3-)
proof (induction n \<equiv> "card pending" arbitrary: pending created m)
  case 0
  have "finite pending"
    using 0(2) fin by (auto simp: finite_images_set_def intro: finite_subset)
  with 0(1) have "pending = {}" by simp
  then have "range_run mirror (pending, created, m) [] = Some ({}, created, m)" by simp
  then show ?case by blast
next
  case (Suc n)
  have fp: "finite pending"
    using Suc(3) fin by (auto simp: finite_images_set_def intro: finite_subset)
  from Suc(2) obtain k where k: "k \<in> pending"
    by (metis card.empty ex_in_conv nat.distinct(1))
  have kD: "k \<in> dom m0" "k \<notin> dom m0 - pending" using k Suc(3) by auto
  then have km: "k \<in> dom m" unfolding Suc(4) by (rule dom_migrated_pending)
  have "finite (dom (sources_of m k))"
    unfolding Suc(4) by (rule finite_sources_migrated [OF fin]) auto
  then have "\<exists>xs. set xs = dom (sources_of m k) \<and> distinct xs"
    by (rule finite_distinct_list)
  then obtain so where so: "set so = dom (sources_of m k)" "distinct so"
    by (elim exE conjE)
  define m1 where "m1 = convert_image mirror so k m"
  define p1 where "p1 = (pending - {k}) \<inter> dom m1"
  define c1 where "c1 = ((created - {k}) \<inter> dom m1) \<union> (dom m1 - dom m)"
  have ro: "range_order (sources_of m k) so"
    using so by (simp add: range_order_def)
  have n: "range_next mirror (pending, created, m) (k, so) = Some (p1, c1, m1)"
    using k km ro by (simp add: range_next_def Let_def m1_def p1_def c1_def)
  from range_next_invariant [OF idem Suc(3) Suc(4) Suc(5) Suc(6) n]
  have i: "p1 = pending - {k}" "m1 = migrated mirror (dom m0 - p1) m0"
    "c1 \<subseteq> dom m1" "\<forall>k\<in>c1. mirror k = k"
    by blast+
  have c: "n = card p1" using i(1) k fp Suc(2) by simp
  have p: "p1 \<subseteq> dom m0" using i(1) Suc(3) by auto
  from Suc(1) [OF c p i(2) i(3) i(4)] obtain rest created' m' where
    "range_run mirror (p1, c1, m1) rest = Some ({}, created', m')"
    by blast
  with n have "range_run mirror (pending, created, m) ((k, so) # rest) = Some ({}, created', m')"
    by simp
  then show ?case by blast
qed

lemma range_prefix_extends:
  assumes idem: "\<forall>x. mirror (mirror x) = mirror x" and fin: "finite_images_set m0"
    and "range_prefix mirror m0 schedule"
  shows "\<exists>rest. range_complete mirror m0 (schedule @ rest)"
proof -
  from assms(3) obtain pending created m where
    r: "range_run mirror (dom m0, {}, m0) schedule = Some (pending, created, m)"
    by (auto simp: range_prefix_def)
  have "m0 = migrated mirror (dom m0 - dom m0) m0" by (simp add: migrated_empty)
  from range_run_invariant [OF idem subset_refl this _ _ r]
  have i: "pending \<subseteq> dom m0" "m = migrated mirror (dom m0 - pending) m0"
    "created \<subseteq> dom m" "\<forall>k\<in>created. mirror k = k"
    by blast+
  from range_run_extend [OF idem fin i] obtain rest created' m' where
    "range_run mirror (pending, created, m) rest = Some ({}, created', m')"
    by blast
  with r have "range_complete mirror m0 (schedule @ rest)"
    by (simp add: range_complete_def range_run_append)
  then show ?thesis by blast
qed

text \<open>
  Claim C4 (mirror rename), as the code has it.  Let the rule be idempotent, as the
  specification assumes, and let the loop have run to its end, in whatever order.  An image
  of the accumulator that the rule renames is absent afterwards, and every source that was
  true under it is true under its new name.  An image that the rule leaves as it is keeps its
  key and its sources; the sources that were true under the other images renamed to it are
  true under it as well, and when no other image is renamed to it, it is unchanged.
\<close>

theorem mirror_rename:
  assumes "\<forall>x. mirror (mirror x) = mirror x"
    and "range_complete mirror m0 schedule"
    and "img \<in> dom m0"
  shows "(mirror img \<noteq> img \<longrightarrow>
            convertMirroredImages mirror schedule m0 img = None \<and>
            true_sources (sources_of m0 img) \<subseteq>
              true_sources (sources_of (convertMirroredImages mirror schedule m0) (mirror img))) \<and>
         (mirror img = img \<longrightarrow>
            img \<in> dom (convertMirroredImages mirror schedule m0) \<and>
            sources_of (convertMirroredImages mirror schedule m0) img =
              (\<lambda>x. if x \<in> moved_sources mirror (dom m0) m0 img then Some True
                   else sources_of m0 img x) \<and>
            ((\<forall>a\<in>dom m0. mirror a = img \<longrightarrow> a = img) \<longrightarrow>
               convertMirroredImages mirror schedule m0 img = m0 img))"
proof -
  let ?r = "convertMirroredImages mirror schedule m0"
  have r: "?r = migrated mirror (dom m0) m0"
    using assms(1,2) by (rule convertMirroredImages_migrated)
  show ?thesis
  proof (intro conjI impI)
    assume nf: "mirror img \<noteq> img"
    show "?r img = None" using nf assms(3) by (simp add: r migrated_def)
    have fx: "mirror (mirror img) = mirror img" using assms(1) by simp
    have "true_sources (sources_of m0 img) \<subseteq> moved_sources mirror (dom m0) m0 (mirror img)"
      using nf assms(3) by (auto simp: moved_sources_def)
    then show "true_sources (sources_of m0 img) \<subseteq> true_sources (sources_of ?r (mirror img))"
      unfolding r using fx
      by (auto simp: sources_of_migrated [of "mirror img" "dom m0" mirror m0] true_sources_def)
  next
    assume f: "mirror img = img"
    show "img \<in> dom ?r" using f assms(3) by (auto simp: r migrated_def)
    show "sources_of ?r img =
            (\<lambda>x. if x \<in> moved_sources mirror (dom m0) m0 img then Some True else sources_of m0 img x)"
      unfolding r using f by (simp add: sources_of_migrated [of img "dom m0" mirror m0])
  next
    assume f: "mirror img = img" and alone: "\<forall>a\<in>dom m0. mirror a = img \<longrightarrow> a = img"
    have "moved_sources mirror (dom m0) m0 img = {}"
      using alone by (auto simp: moved_sources_def)
    then show "?r img = m0 img"
      using f assms(3) by (auto simp: r migrated_def sources_of_def fun_eq_iff)
  qed
qed

lemma demo_mirror_idem: "\<forall>x. demo_mirror (demo_mirror x) = demo_mirror x"
  by (simp add: demo_mirror_def)

theorem mirror_rename_witness:
  "range_complete demo_mirror [''docker.io/foo:1.0'' \<mapsto> [''chartA'' \<mapsto> True]]
     [(''docker.io/foo:1.0'', [''chartA''])] \<and>
   convertMirroredImages demo_mirror [(''docker.io/foo:1.0'', [''chartA''])]
     [''docker.io/foo:1.0'' \<mapsto> [''chartA'' \<mapsto> True]] = [''foo:1.0'' \<mapsto> [''chartA'' \<mapsto> True]] \<and>
   convertMirroredImages demo_mirror [(''docker.io/foo:1.0'', [''chartA''])]
     [''docker.io/foo:1.0'' \<mapsto> [''chartA'' \<mapsto> True]] ''docker.io/foo:1.0'' = None"
proof -
  let ?m = "[''docker.io/foo:1.0'' \<mapsto> [''chartA'' \<mapsto> True]]"
  let ?s = "[(''docker.io/foo:1.0'', [''chartA''])]"
  have c: "range_complete demo_mirror ?m ?s"
    by (simp add: range_complete_def range_next_def range_order_def sources_of_def
        convert_image_def demo_mirror_def addSourceToImage_def)
  have d: "''docker.io/foo:1.0'' \<in> dom ?m" by simp
  have n: "demo_mirror ''docker.io/foo:1.0'' \<noteq> ''docker.io/foo:1.0''"
    by (simp add: demo_mirror_def)
  from mirror_rename [OF demo_mirror_idem c d] n
  have a: "convertMirroredImages demo_mirror ?s ?m ''docker.io/foo:1.0'' = None"
    by blast
  have e: "convertMirroredImages demo_mirror ?s ?m = [''foo:1.0'' \<mapsto> [''chartA'' \<mapsto> True]]"
    by (auto simp: convertMirroredImages_def convert_image_def demo_mirror_def addSourceToImage_def
        sources_of_def fun_eq_iff)
  from c e a show ?thesis by blast
qed

text \<open>
  The claim as the specification states it fails twice.  With the idempotent rule of the
  scenario, \<open>foo:1.0\<close> is its own canonical name and is not left unchanged: it receives the
  source of \<open>docker.io/foo:1.0\<close>.  With a rule that is not idempotent, the sources of
  \<open>kibana\<close> are not found under its new name \<open>rancher/kibana\<close>, which the same pass renames
  in turn.
\<close>

theorem mirror_rename_counterexample:
  "range_complete demo_mirror
     [''docker.io/foo:1.0'' \<mapsto> [''chartA'' \<mapsto> True], ''foo:1.0'' \<mapsto> [''chartB'' \<mapsto> True]]
     [(''docker.io/foo:1.0'', [''chartA'']), (''foo:1.0'', [''chartA'', ''chartB''])] \<and>
   demo_mirror ''foo:1.0'' = ''foo:1.0'' \<and>
   sources_of [''docker.io/foo:1.0'' \<mapsto> [''chartA'' \<mapsto> True], ''foo:1.0'' \<mapsto> [''chartB'' \<mapsto> True]]
     ''foo:1.0'' ''chartA'' = None \<and>
   sources_of
     (convertMirroredImages demo_mirror
        [(''docker.io/foo:1.0'', [''chartA'']), (''foo:1.0'', [''chartA'', ''chartB''])]
        [''docker.io/foo:1.0'' \<mapsto> [''chartA'' \<mapsto> True], ''foo:1.0'' \<mapsto> [''chartB'' \<mapsto> True]])
     ''foo:1.0'' ''chartA'' = Some True \<and>
   range_complete kibana_mirror
     [''kibana'' \<mapsto> [''rancher'' \<mapsto> True], ''rancher/kibana'' \<mapsto> [''system'' \<mapsto> True]]
     [(''kibana'', [''rancher'']), (''rancher/kibana'', [''rancher'', ''system''])] \<and>
   kibana_mirror ''kibana'' = ''rancher/kibana'' \<and>
   sources_of [''kibana'' \<mapsto> [''rancher'' \<mapsto> True], ''rancher/kibana'' \<mapsto> [''system'' \<mapsto> True]]
     ''kibana'' ''rancher'' = Some True \<and>
   convertMirroredImages kibana_mirror
     [(''kibana'', [''rancher'']), (''rancher/kibana'', [''rancher'', ''system''])]
     [''kibana'' \<mapsto> [''rancher'' \<mapsto> True], ''rancher/kibana'' \<mapsto> [''system'' \<mapsto> True]]
     ''rancher/kibana'' = None"
  by (simp add: range_complete_def range_next_def range_order_def sources_of_def
      convert_image_def demo_mirror_def kibana_mirror_def addSourceToImage_def
      convertMirroredImages_def insert_commute)

text \<open>
  Claim C5 (idempotence of the mirror normalizer).  Let the rule be idempotent.  A second
  pass over the accumulator that a pass has left gives that accumulator again, for every
  order in which the two passes can iterate.  And the pass terminates: a run of the loop over
  an accumulator has at most twice as many iterations as the accumulator has images, and
  whatever the loop has produced, it can go on to its end.
\<close>

theorem mirror_idempotence:
  assumes "\<forall>x. mirror (mirror x) = mirror x"
    and "finite_images_set m0"
    and "range_complete mirror m0 first"
    and "range_complete mirror (convertMirroredImages mirror first m0) second"
  shows "convertMirroredImages mirror second (convertMirroredImages mirror first m0) =
           convertMirroredImages mirror first m0 \<and>
         (\<forall>s. range_prefix mirror m0 s \<longrightarrow>
            length s \<le> 2 * card (dom m0) \<and> (\<exists>rest. range_complete mirror m0 (s @ rest)))"
proof -
  let ?m1 = "convertMirroredImages mirror first m0"
  have m1: "?m1 = migrated mirror (dom m0) m0"
    using assms(1,3) by (rule convertMirroredImages_migrated)
  have fixed: "\<forall>k\<in>dom ?m1. mirror k = k"
    unfolding m1 using dom_migrated_fixed [OF assms(1)] by blast
  from assms(4) obtain created m2 where
    r: "range_run mirror (dom ?m1, {}, ?m1) second = Some ({}, created, m2)"
    by (auto simp: range_complete_def split: option.splits)
  have "m2 = ?m1" using fixed r by (rule fixed_run_identity)
  with range_run_result [OF r] have twice: "convertMirroredImages mirror second ?m1 = ?m1"
    by simp
  have fin: "finite (dom m0)" using assms(2) by (simp add: finite_images_set_def)
  have "length s \<le> 2 * card (dom m0) \<and> (\<exists>rest. range_complete mirror m0 (s @ rest))"
    if "range_prefix mirror m0 s" for s
    using range_prefix_bounded [OF assms(1) fin that] range_prefix_extends [OF assms(1,2) that]
    by simp
  with twice show ?thesis by blast
qed

theorem mirror_idempotence_witness:
  "convertMirroredImages demo_mirror [(''foo:1.0'', [''chartA'']), (''busybox'', [''core''])]
     (convertMirroredImages demo_mirror
        [(''busybox'', [''core'']), (''docker.io/foo:1.0'', [''chartA'']), (''foo:1.0'', [''chartA''])]
        [''docker.io/foo:1.0'' \<mapsto> [''chartA'' \<mapsto> True], ''busybox'' \<mapsto> [''core'' \<mapsto> True]]) =
   convertMirroredImages demo_mirror
     [(''busybox'', [''core'']), (''docker.io/foo:1.0'', [''chartA'']), (''foo:1.0'', [''chartA''])]
     [''docker.io/foo:1.0'' \<mapsto> [''chartA'' \<mapsto> True], ''busybox'' \<mapsto> [''core'' \<mapsto> True]] \<and>
   convertMirroredImages demo_mirror
     [(''busybox'', [''core'']), (''docker.io/foo:1.0'', [''chartA'']), (''foo:1.0'', [''chartA''])]
     [''docker.io/foo:1.0'' \<mapsto> [''chartA'' \<mapsto> True], ''busybox'' \<mapsto> [''core'' \<mapsto> True]] =
   [''foo:1.0'' \<mapsto> [''chartA'' \<mapsto> True], ''busybox'' \<mapsto> [''core'' \<mapsto> True]] \<and>
   length [(''busybox'', [''core'']), (''docker.io/foo:1.0'', [''chartA'']), (''foo:1.0'', [''chartA''])]
     \<le> 2 * card (dom [''docker.io/foo:1.0'' \<mapsto> [''chartA'' \<mapsto> True], ''busybox'' \<mapsto> [''core'' \<mapsto> True]])"
proof -
  let ?m0 = "[''docker.io/foo:1.0'' \<mapsto> [''chartA'' \<mapsto> True], ''busybox'' \<mapsto> [''core'' \<mapsto> True]]"
  let ?s1 = "[(''busybox'', [''core'']), (''docker.io/foo:1.0'', [''chartA'']), (''foo:1.0'', [''chartA''])]"
  let ?s2 = "[(''foo:1.0'', [''chartA'']), (''busybox'', [''core''])]"
  have e: "convertMirroredImages demo_mirror ?s1 ?m0 =
             [''foo:1.0'' \<mapsto> [''chartA'' \<mapsto> True], ''busybox'' \<mapsto> [''core'' \<mapsto> True]]"
    by (auto simp: convertMirroredImages_def convert_image_def demo_mirror_def addSourceToImage_def
        sources_of_def fun_eq_iff)
  have f: "finite_images_set ?m0"
    by (simp add: finite_images_set_def sources_of_def)
  have c1: "range_complete demo_mirror ?m0 ?s1"
    by (simp add: range_complete_def range_next_def range_order_def sources_of_def
        convert_image_def demo_mirror_def addSourceToImage_def insert_commute)
  have c2: "range_complete demo_mirror (convertMirroredImages demo_mirror ?s1 ?m0) ?s2"
    unfolding e
    by (simp add: range_complete_def range_next_def range_order_def sources_of_def
        convert_image_def demo_mirror_def addSourceToImage_def insert_commute)
  have p: "range_prefix demo_mirror ?m0 ?s1"
    using c1 by (auto simp: range_complete_def range_prefix_def split: option.splits)
  from mirror_idempotence [OF demo_mirror_idem f c1 c2] p
  have "convertMirroredImages demo_mirror ?s2 (convertMirroredImages demo_mirror ?s1 ?m0) =
          convertMirroredImages demo_mirror ?s1 ?m0 \<and> length ?s1 \<le> 2 * card (dom ?m0)"
    by blast
  with e show ?thesis by simp
qed

section \<open>Properties of the orchestrator\<close>

lemma finite_images_set_add:
  assumes "finite_images_set m"
  shows "finite_images_set (addSourceToImage m i srcs)"
proof -
  have "dom (addSourceToImage m i srcs) = insert i (dom m)"
    by (simp add: addSourceToImage_def)
  then show ?thesis
    using assms by (simp add: finite_images_set_def dom_sources_add)
qed

lemma finite_images_set_delete:
  assumes "finite_images_set m"
  shows "finite_images_set (m(k := None))"
  using assms by (simp add: finite_images_set_def sources_of_upd)

lemma finite_images_set_fold:
  assumes "finite_images_set m"
  shows "finite_images_set (fold (\<lambda>source acc. if P source then addSourceToImage acc c [source] else acc) so m)"
  using assms by (induction so arbitrary: m) (simp_all add: finite_images_set_add)

lemma finite_images_set_convert:
  assumes "finite_images_set m"
  shows "finite_images_set (convert_image mirror so k m)"
  using assms
  by (simp add: convert_image_def Let_def finite_images_set_delete finite_images_set_fold)

text \<open>Whatever the rule, the loop of \<open>convertMirroredImages\<close> can run to its end.\<close>

lemma range_run_can_complete:
  assumes "finite_images_set m" and "finite pending" and "pending \<subseteq> dom m"
  shows "\<exists>rest created' m'. range_run mirror (pending, created, m) rest = Some ({}, created', m')"
  using assms
proof (induction "card pending" arbitrary: pending created m rule: less_induct)
  case less
  show ?case
  proof (cases "pending = {}")
    case True
    then have "range_run mirror (pending, created, m) [] = Some ({}, created, m)" by simp
    then show ?thesis by blast
  next
    case False
    then obtain k where k: "k \<in> pending" by blast
    then have km: "k \<in> dom m" using less.prems(3) by blast
    have "finite (dom (sources_of m k))"
      using less.prems(1) by (simp add: finite_images_set_def)
    then have "\<exists>xs. set xs = dom (sources_of m k) \<and> distinct xs"
      by (rule finite_distinct_list)
    then obtain so where so: "set so = dom (sources_of m k)" "distinct so"
      by (elim exE conjE)
    define m1 where "m1 = convert_image mirror so k m"
    define p1 where "p1 = (pending - {k}) \<inter> dom m1"
    define c1 where "c1 = ((created - {k}) \<inter> dom m1) \<union> (dom m1 - dom m)"
    have ro: "range_order (sources_of m k) so"
      using so by (simp add: range_order_def)
    have n: "range_next mirror (pending, created, m) (k, so) = Some (p1, c1, m1)"
      using k km ro by (simp add: range_next_def Let_def m1_def p1_def c1_def)
    have sub: "p1 \<subseteq> pending - {k}" by (auto simp: p1_def)
    have fp: "finite p1" using sub less.prems(2) by (auto intro: finite_subset)
    have "card p1 \<le> card (pending - {k})"
      using sub less.prems(2) by (auto intro: card_mono)
    also have "\<dots> < card pending"
      using k less.prems(2) by (rule card_Diff1_less [rotated])
    finally have lt: "card p1 < card pending" .
    have fm: "finite_images_set m1"
      unfolding m1_def using less.prems(1) by (rule finite_images_set_convert)
    have pd: "p1 \<subseteq> dom m1" by (auto simp: p1_def)
    from less.hyps [OF lt fm fp pd] obtain rest created' m' where
      "range_run mirror (p1, c1, m1) rest = Some ({}, created', m')"
      by blast
    with n have "range_run mirror (pending, created, m) ((k, so) # rest) = Some ({}, created', m')"
      by simp
    then show ?thesis by blast
  qed
qed

lemma range_complete_exists:
  assumes "finite_images_set m"
  shows "\<exists>schedule. range_complete mirror m schedule"
proof -
  have "finite (dom m)" using assms by (simp add: finite_images_set_def)
  from range_run_can_complete [OF assms this subset_refl] obtain rest created' m' where
    "range_run mirror (dom m, {}, m) rest = Some ({}, created', m')"
    by blast
  then have "range_complete mirror m rest" by (simp add: range_complete_def)
  then show ?thesis by blast
qed


















text \<open>The run of the loop under the growing rule in which every created entry is
  produced.\<close>

lemma grown_neq: "grow_mirror g \<noteq> g"
proof
  assume "grow_mirror g = g"
  then have "length (grow_mirror g) = length g" by simp
  then show False by (simp add: grow_mirror_def)
qed

lemma grow_next:
  assumes "g \<in> pending \<union> created" and "pending \<subseteq> {g}" and "created \<subseteq> {g}"
  shows "range_next grow_mirror (pending, created, [g \<mapsto> [''rancher'' \<mapsto> True]])
           (g, [''rancher'']) =
         Some ({}, {grow_mirror g}, [grow_mirror g \<mapsto> [''rancher'' \<mapsto> True]])"
proof -
  let ?m = "[g \<mapsto> [''rancher'' \<mapsto> True]]"
  have n: "grow_mirror g \<noteq> g" by (rule grown_neq)
  have c: "convert_image grow_mirror [''rancher''] g ?m = [grow_mirror g \<mapsto> [''rancher'' \<mapsto> True]]"
    using n by (auto simp: convert_image_def Let_def sources_of_def addSourceToImage_def fun_eq_iff)
  have o: "range_order (sources_of ?m g) [''rancher'']"
    by (simp add: range_order_def sources_of_def)
  show ?thesis
    using assms n o by (auto simp: range_next_def Let_def c)
qed

lemma grow_run_state:
  "range_run grow_mirror ({''kibana''}, {}, [''kibana'' \<mapsto> [''rancher'' \<mapsto> True]])
     (grow_run (Suc n)) =
   Some ({}, {grown (Suc n)}, [grown (Suc n) \<mapsto> [''rancher'' \<mapsto> True]])"
proof (induction n)
  case 0
  have n: "range_next grow_mirror ({''kibana''}, {}, [''kibana'' \<mapsto> [''rancher'' \<mapsto> True]])
          (''kibana'', [''rancher'']) =
        Some ({}, {grow_mirror ''kibana''}, [grow_mirror ''kibana'' \<mapsto> [''rancher'' \<mapsto> True]])"
    by (rule grow_next) simp_all
  show ?case
    by (simp only: grow_run.simps grown.simps append_Nil range_run.simps n option.case)
next
  case (Suc n)
  have n: "range_next grow_mirror ({}, {grown (Suc n)}, [grown (Suc n) \<mapsto> [''rancher'' \<mapsto> True]])
          (grown (Suc n), [''rancher'']) =
        Some ({}, {grow_mirror (grown (Suc n))},
              [grow_mirror (grown (Suc n)) \<mapsto> [''rancher'' \<mapsto> True]])"
    by (rule grow_next) simp_all
  have g: "grown (Suc (Suc n)) = grow_mirror (grown (Suc n))" by simp
  show ?case
    apply (subst grow_run.simps(2))
    apply (simp only: range_run_append Suc option.case range_run.simps n g)
    done
qed


lemma grow_run_complete:
  "range_complete grow_mirror [''kibana'' \<mapsto> [''rancher'' \<mapsto> True]] (grow_run (Suc n))"
  using grow_run_state [of n] by (simp add: range_complete_def)









text \<open>
  The order in which \<open>getChartVersions\<close> meets the entries of the chart index is an input
  of the orchestrator here (\<open>the_loadIndex\<close>), and the lists depend on it: the label of an
  image is the first selected chart whose directory is a prefix of the path of the values
  file.  With the directories \<open>foo\<close> and \<open>foo/sub\<close> and the file \<open>foo/sub/values.yaml\<close>,
  the image is labelled \<open>foo:1.0.0\<close> when the entry of \<open>foo\<close> comes first and
  \<open>foo-sub:1.0.0\<close> when it comes second.
\<close>

lemma index_order_dependence:
  "GetImages (overlap_world [(''foo'', [overlap_chart ''foo'' ''foo'']),
                             (''foo-sub'', [overlap_chart ''foo-sub'' ''foo/sub''])])
     \<lparr>mirror_schedule = [(''rancher/foo:1.0'', [''foo:1.0.0''])],
      image_order = [''rancher/foo:1.0''],
      source_order = (\<lambda>img. [''foo:1.0.0''])\<rparr>
     [] ''charts'' ''2.6.3'' [] [] [] Windows =
     Inr ([''rancher/foo:1.0''], [''rancher/foo:1.0 foo:1.0.0'']) \<and>
   GetImages (overlap_world [(''foo-sub'', [overlap_chart ''foo-sub'' ''foo/sub'']),
                             (''foo'', [overlap_chart ''foo'' ''foo''])])
     \<lparr>mirror_schedule = [(''rancher/foo:1.0'', [''foo-sub:1.0.0''])],
      image_order = [''rancher/foo:1.0''],
      source_order = (\<lambda>img. [''foo-sub:1.0.0''])\<rparr>
     [] ''charts'' ''2.6.3'' [] [] [] Windows =
     Inr ([''rancher/foo:1.0''], [''rancher/foo:1.0 foo-sub:1.0.0'']) \<and>
   collectImages (overlap_world [(''foo'', [overlap_chart ''foo'' ''foo'']),
                                 (''foo-sub'', [overlap_chart ''foo-sub'' ''foo/sub''])])
     [] ''charts'' ''2.6.3'' [] [] [] Windows =
     Inr [''rancher/foo:1.0'' \<mapsto> [''foo:1.0.0'' \<mapsto> True]] \<and>
   collectImages (overlap_world [(''foo-sub'', [overlap_chart ''foo-sub'' ''foo/sub'']),
                                 (''foo'', [overlap_chart ''foo'' ''foo''])])
     [] ''charts'' ''2.6.3'' [] [] [] Windows =
     Inr [''rancher/foo:1.0'' \<mapsto> [''foo-sub:1.0.0'' \<mapsto> True]] \<and>
   admissible demo_mirror [''rancher/foo:1.0'' \<mapsto> [''foo:1.0.0'' \<mapsto> True]]
     \<lparr>mirror_schedule = [(''rancher/foo:1.0'', [''foo:1.0.0''])],
      image_order = [''rancher/foo:1.0''],
      source_order = (\<lambda>img. [''foo:1.0.0''])\<rparr> \<and>
   admissible demo_mirror [''rancher/foo:1.0'' \<mapsto> [''foo-sub:1.0.0'' \<mapsto> True]]
     \<lparr>mirror_schedule = [(''rancher/foo:1.0'', [''foo-sub:1.0.0''])],
      image_order = [''rancher/foo:1.0''],
      source_order = (\<lambda>img. [''foo-sub:1.0.0''])\<rparr>"
  by (simp add: GetImages_def collectImages_def overlap_world_def overlap_chart_def demo_world_def
      fetchImagesFromCharts_def getChartVersions_def contains_def has_prefix_def
      SystemChartsRepoDir_def pickImagesFromValuesYAML_def pickImagesFromValues_def
      generateImages_def lookup_def setImages_def setRequirementImages_def
      convertMirroredImages_def convert_image_def demo_mirror_def addSourceToImage_def
      sources_of_def generateImageAndSourceLists_def getSourcesList_def
      admissible_def range_complete_def range_next_def range_order_def Let_def)




end
